theory Spec2Isabelle
  imports Complex_Main
begin

section \<open>Game of Life with fade trails: the CircuitPython implementation\<close>

text \<open>
  A shallow embedding of the class \<open>GameOfLifeMatrix\<close> of
  \<^verbatim>\<open>bonus_implementations/circuitPython_slow_but_functional.py\<close>.

  \<^item> The module constants (\<open>FADE_LEVELS\<close>, \<open>FADE_DECAY_RATE\<close>, \<open>AUTO_RESET_ON_STABLE\<close>,
    \<open>STABLE_GENERATIONS\<close>, \<open>HISTORY_SIZE\<close>) are the fields of a record \<open>config\<close>;
    \<open>source_config\<close> holds the values the file assigns.
  \<^item> The object is a record \<open>game\<close>. The two bitmaps \<open>b1\<close> and \<open>b2\<close> are stored once
    each; \<open>current_bitmap\<close> and \<open>next_bitmap\<close> are references (\<open>bitmap_id\<close>) to them,
    so that the swap in \<open>run\<close> is a swap of references and a read through one
    reference sees a write through the other when they alias.
  \<^item> Cell values and counters are Python integers (\<open>int\<close>); the dimensions of the display
    and all indices are natural numbers. \<open>width_minus_1\<close> and \<open>height_minus_1\<close> are read
    only inside loop bodies, which run only when the dimension is positive.
  \<^item> An index out of range raises \<open>IndexError\<close>: every read and write through an index
    returns \<open>error + _\<close>. The value check of a stored byte or pixel belongs to the
    container, not to this file; the range of the stored values is the invariant
    \<open>values_in_range\<close> below.
  \<^item> \<open>random.getrandbits(15)\<close> reads the next element of an arbitrary sequence
    \<open>random_bits\<close>, reduced to 15 bits.
  \<^item> \<open>print\<close> and \<open>time.sleep\<close> append an event to \<open>console\<close>.
\<close>

subsection \<open>Errors\<close>

datatype error = IndexError | ValueError

definition and_then :: "error + 'a \<Rightarrow> ('a \<Rightarrow> error + 'b) \<Rightarrow> error + 'b" where
  "and_then m f = (case m of Inl e \<Rightarrow> Inl e | Inr x \<Rightarrow> f x)"

subsection \<open>Configuration and state\<close>

record config =
  FADE_LEVELS :: int
  FADE_DECAY_RATE :: int
  AUTO_RESET_ON_STABLE :: bool
  STABLE_GENERATIONS :: int
  HISTORY_SIZE :: nat

definition source_config :: config where
  "source_config =
     \<lparr>FADE_LEVELS = 8, FADE_DECAY_RATE = 1, AUTO_RESET_ON_STABLE = True,
      STABLE_GENERATIONS = 10, HISTORY_SIZE = 3\<rparr>"

datatype bitmap_id = B1 | B2

datatype group_id = G1 | G2

datatype event = Print_reset int | Sleep_half_second

record game =
  width :: nat
  height :: nat
  b1 :: "int list"
  b2 :: "int list"
  root_group :: group_id
  current_bitmap :: bitmap_id
  next_bitmap :: bitmap_id
  fade_buffer :: "int list"
  population_history :: "int list"
  stable_count :: int
  generation :: int
  width_minus_1 :: nat
  height_minus_1 :: nat
  auto_refresh :: bool
  random_bits :: "nat \<Rightarrow> nat"
  random_pos :: nat
  console :: "event list"

text \<open>\<open>__init__\<close>: both bitmaps and the fade buffer start all zero, \<open>g1\<close> (showing \<open>b1\<close>)
  is displayed, \<open>b1\<close> is current. The tracking attributes are created only when
  \<open>AUTO_RESET_ON_STABLE\<close> is set; otherwise they are never read.\<close>

definition init :: "config \<Rightarrow> nat \<Rightarrow> nat \<Rightarrow> (nat \<Rightarrow> nat) \<Rightarrow> game" where
  "init cfg w h bits =
     \<lparr>width = w, height = h,
      b1 = replicate (w * h) 0, b2 = replicate (w * h) 0,
      root_group = G1, current_bitmap = B1, next_bitmap = B2,
      fade_buffer = replicate (w * h) 0,
      population_history = (if AUTO_RESET_ON_STABLE cfg then replicate (HISTORY_SIZE cfg) 0 else []),
      stable_count = 0, generation = 0,
      width_minus_1 = w - 1, height_minus_1 = h - 1,
      auto_refresh = False, random_bits = bits, random_pos = 0, console = []\<rparr>"

subsection \<open>Indexed reads and writes\<close>

definition bitmap_of :: "bitmap_id \<Rightarrow> game \<Rightarrow> int list" where
  "bitmap_of b g = (case b of B1 \<Rightarrow> b1 g | B2 \<Rightarrow> b2 g)"

definition bitmap_load :: "bitmap_id \<Rightarrow> nat \<Rightarrow> game \<Rightarrow> error + int" where
  "bitmap_load b i g =
     (if i < length (bitmap_of b g) then Inr (bitmap_of b g ! i) else Inl IndexError)"

definition bitmap_store :: "bitmap_id \<Rightarrow> nat \<Rightarrow> int \<Rightarrow> game \<Rightarrow> error + game" where
  "bitmap_store b i v g =
     (if i < length (bitmap_of b g)
      then Inr (case b of B1 \<Rightarrow> g\<lparr>b1 := (b1 g)[i := v]\<rparr> | B2 \<Rightarrow> g\<lparr>b2 := (b2 g)[i := v]\<rparr>)
      else Inl IndexError)"

definition fade_load :: "nat \<Rightarrow> game \<Rightarrow> error + int" where
  "fade_load i g =
     (if i < length (fade_buffer g) then Inr (fade_buffer g ! i) else Inl IndexError)"

definition fade_store :: "nat \<Rightarrow> int \<Rightarrow> game \<Rightarrow> error + game" where
  "fade_store i v g =
     (if i < length (fade_buffer g)
      then Inr (g\<lparr>fade_buffer := (fade_buffer g)[i := v]\<rparr>)
      else Inl IndexError)"

definition list_get :: "int list \<Rightarrow> nat \<Rightarrow> error + int" where
  "list_get xs i = (if i < length xs then Inr (xs ! i) else Inl IndexError)"

definition list_set :: "int list \<Rightarrow> nat \<Rightarrow> int \<Rightarrow> error + int list" where
  "list_set xs i v = (if i < length xs then Inr (xs[i := v]) else Inl IndexError)"

subsection \<open>\<open>randomize\<close>\<close>

text \<open>\<open>int(fraction * 32767)\<close>: \<open>int\<close> truncates towards zero. The fraction is a rational
  number here; the products of the source's arguments \<open>0.0\<close> and \<open>1.0\<close> are exact in
  floating point, and \<open>0.33 * 32767\<close> is \<open>10813.11\<close>, far from an integer.\<close>

definition py_int :: "rat \<Rightarrow> int" where
  "py_int q = (if 0 \<le> q then \<lfloor>q\<rfloor> else \<lceil>q\<rceil>)"

definition getrandbits15 :: "game \<Rightarrow> int \<times> game" where
  "getrandbits15 g =
     (int (random_bits g (random_pos g) mod 32768), g\<lparr>random_pos := random_pos g + 1\<rparr>)"

fun randomize_loop :: "config \<Rightarrow> int \<Rightarrow> nat list \<Rightarrow> game \<Rightarrow> error + game" where
  "randomize_loop cfg random_threshold [] g = Inr g"
| "randomize_loop cfg random_threshold (i # rest) g =
     (case getrandbits15 g of (r, ga) \<Rightarrow>
        and_then
          (if r < random_threshold
           then and_then (bitmap_store (current_bitmap ga) i (FADE_LEVELS cfg - 1) ga)
                  (fade_store i (FADE_LEVELS cfg - 1))
           else and_then (bitmap_store (current_bitmap ga) i 0 ga) (fade_store i 0))
          (randomize_loop cfg random_threshold rest))"

definition randomize :: "config \<Rightarrow> rat \<Rightarrow> game \<Rightarrow> error + game" where
  "randomize cfg fraction g =
     (let random_threshold = py_int (fraction * 32767);
          size = width g * height g
      in randomize_loop cfg random_threshold [0..<size] g)"

subsection \<open>\<open>apply_life_rule_with_fade\<close>\<close>

text \<open>One of the eight statements
  \<^verbatim>\<open>if current[i] == max_fade: neighbors += 1\<close>.\<close>

definition count_neighbor :: "bitmap_id \<Rightarrow> int \<Rightarrow> game \<Rightarrow> nat \<Rightarrow> int \<Rightarrow> error + int" where
  "count_neighbor current max_fade g i neighbors =
     and_then (bitmap_load current i g)
       (\<lambda>v. Inr (if v = max_fade then neighbors + 1 else neighbors))"

text \<open>The eight statements in the order of the source, starting from \<open>neighbors = 0\<close>.\<close>

definition count_neighbors ::
  "bitmap_id \<Rightarrow> int \<Rightarrow> nat \<Rightarrow> nat \<Rightarrow> nat \<Rightarrow> nat \<Rightarrow> nat \<Rightarrow> nat \<Rightarrow> game \<Rightarrow> error + int" where
  "count_neighbors current max_fade ym1_offset y_offset yp1_offset x_minus_1 x x_plus_1 g =
     and_then (count_neighbor current max_fade g (x_minus_1 + ym1_offset) 0)
    (\<lambda>n. and_then (count_neighbor current max_fade g (x + ym1_offset) n)
    (\<lambda>n. and_then (count_neighbor current max_fade g (x_plus_1 + ym1_offset) n)
    (\<lambda>n. and_then (count_neighbor current max_fade g (x_minus_1 + y_offset) n)
    (\<lambda>n. and_then (count_neighbor current max_fade g (x_plus_1 + y_offset) n)
    (\<lambda>n. and_then (count_neighbor current max_fade g (x_minus_1 + yp1_offset) n)
    (\<lambda>n. and_then (count_neighbor current max_fade g (x + yp1_offset) n)
    (\<lambda>n. count_neighbor current max_fade g (x_plus_1 + yp1_offset) n)))))))"

text \<open>The body of the inner loop for one \<open>x\<close>, up to (not including) the update of
  \<open>x_minus_1\<close>.\<close>

definition cell_body ::
  "config \<Rightarrow> bitmap_id \<Rightarrow> bitmap_id \<Rightarrow> nat \<Rightarrow> int \<Rightarrow> nat \<Rightarrow> nat \<Rightarrow> nat \<Rightarrow> nat \<Rightarrow> nat \<Rightarrow> game
     \<Rightarrow> error + game" where
  "cell_body cfg current next_bmp wm1 max_fade ym1_offset y_offset yp1_offset x_minus_1 x g =
     (let x_plus_1 = (if x = wm1 then 0 else x + 1) in
      and_then
        (count_neighbors current max_fade ym1_offset y_offset yp1_offset x_minus_1 x x_plus_1 g)
        (\<lambda>neighbors.
           let cell_index = x + y_offset in
           and_then (bitmap_load current cell_index g)
             (\<lambda>c. let cell_alive = (c = max_fade) in
               if neighbors = 3 \<or> (neighbors = 2 \<and> cell_alive)
               then and_then (bitmap_store next_bmp cell_index max_fade g)
                      (fade_store cell_index max_fade)
               else and_then (fade_load cell_index g)
                      (\<lambda>f. and_then
                              (if f > 0
                               then fade_store cell_index (max 0 (f - FADE_DECAY_RATE cfg)) g
                               else Inr g)
                              (\<lambda>ga. and_then (fade_load cell_index ga)
                                 (\<lambda>fa. bitmap_store next_bmp cell_index fa ga))))))"

text \<open>\<open>for x in range(width)\<close>, carrying \<open>x_minus_1\<close> (set to \<open>x\<close> at the end of each
  iteration).\<close>

fun row_loop ::
  "config \<Rightarrow> bitmap_id \<Rightarrow> bitmap_id \<Rightarrow> nat \<Rightarrow> int \<Rightarrow> nat \<Rightarrow> nat \<Rightarrow> nat \<Rightarrow> nat list \<Rightarrow> nat \<Rightarrow> game
     \<Rightarrow> error + game" where
  "row_loop cfg current next_bmp wm1 max_fade ym1_offset y_offset yp1_offset [] x_minus_1 g = Inr g"
| "row_loop cfg current next_bmp wm1 max_fade ym1_offset y_offset yp1_offset (x # xs) x_minus_1 g =
     and_then
       (cell_body cfg current next_bmp wm1 max_fade ym1_offset y_offset yp1_offset x_minus_1 x g)
       (row_loop cfg current next_bmp wm1 max_fade ym1_offset y_offset yp1_offset xs x)"

text \<open>The body of the outer loop for one \<open>y\<close>.\<close>

definition row_body ::
  "config \<Rightarrow> bitmap_id \<Rightarrow> bitmap_id \<Rightarrow> nat \<Rightarrow> nat \<Rightarrow> nat \<Rightarrow> nat \<Rightarrow> int \<Rightarrow> nat \<Rightarrow> game
     \<Rightarrow> error + game" where
  "row_body cfg current next_bmp w h wm1 hm1 max_fade y g =
     (let y_offset = y * w;
          ym1_offset = (if y = 0 then hm1 * w else (y - 1) * w);
          yp1_offset = (if y = hm1 then 0 else (y + 1) * w);
          x_minus_1 = wm1
      in row_loop cfg current next_bmp wm1 max_fade ym1_offset y_offset yp1_offset
           [0..<w] x_minus_1 g)"

fun rows_loop ::
  "config \<Rightarrow> bitmap_id \<Rightarrow> bitmap_id \<Rightarrow> nat \<Rightarrow> nat \<Rightarrow> nat \<Rightarrow> nat \<Rightarrow> int \<Rightarrow> nat list \<Rightarrow> game
     \<Rightarrow> error + game" where
  "rows_loop cfg current next_bmp w h wm1 hm1 max_fade [] g = Inr g"
| "rows_loop cfg current next_bmp w h wm1 hm1 max_fade (y # ys) g =
     and_then (row_body cfg current next_bmp w h wm1 hm1 max_fade y g)
       (rows_loop cfg current next_bmp w h wm1 hm1 max_fade ys)"

definition apply_life_rule_with_fade :: "config \<Rightarrow> game \<Rightarrow> error + game" where
  "apply_life_rule_with_fade cfg g =
     rows_loop cfg (current_bitmap g) (next_bitmap g) (width g) (height g)
       (width_minus_1 g) (height_minus_1 g) (FADE_LEVELS cfg - 1) [0..<height g] g"

subsection \<open>\<open>count_population\<close>\<close>

fun count_population_loop :: "int \<Rightarrow> nat list \<Rightarrow> game \<Rightarrow> int \<Rightarrow> error + int" where
  "count_population_loop max_fade [] g count = Inr count"
| "count_population_loop max_fade (i # rest) g count =
     and_then (bitmap_load (current_bitmap g) i g)
       (\<lambda>v. count_population_loop max_fade rest g (if v = max_fade then count + 1 else count))"

definition count_population :: "config \<Rightarrow> game \<Rightarrow> error + int" where
  "count_population cfg g =
     (let count = 0; max_fade = FADE_LEVELS cfg - 1; size = width g * height g
      in count_population_loop max_fade [0..<size] g count)"

subsection \<open>\<open>check_stability\<close>\<close>

text \<open>\<open>for i in range(HISTORY_SIZE - 1, 0, -1): history[i] = history[i - 1]\<close>; the list
  of indices is \<open>rev [1..<HISTORY_SIZE]\<close>.\<close>

fun shift_history :: "nat list \<Rightarrow> int list \<Rightarrow> error + int list" where
  "shift_history [] hist = Inr hist"
| "shift_history (i # rest) hist =
     and_then (list_get hist (i - 1))
       (\<lambda>v. and_then (list_set hist i v) (shift_history rest))"

text \<open>The three checks after the shift (lines 175 to 194), on the shifted history.
  \<open>min\<close> and \<open>max\<close> of an empty list raise \<open>ValueError\<close>.\<close>

definition stability_checks :: "config \<Rightarrow> int list \<Rightarrow> error + bool" where
  "stability_checks cfg hist =
     and_then (list_get hist 0) (\<lambda>h0.
     and_then (list_get hist 1) (\<lambda>h1.
       if h0 = h1 then Inr True
       else and_then
              (if HISTORY_SIZE cfg \<ge> 3
               then and_then (list_get hist 2) (\<lambda>h2. Inr (h0 = h2 \<and> h0 \<noteq> h1))
               else Inr False)
              (\<lambda>period_2.
                 if period_2 then Inr True
                 else if HISTORY_SIZE cfg \<ge> 3
                 then (let unique_values = set hist in
                       if card unique_values \<le> 3
                       then (if hist = [] then Inl ValueError
                             else (let min_val = Min (set hist); max_val = Max (set hist)
                                   in if max_val - min_val \<le> 2 then Inr True else Inr False))
                       else Inr False)
                 else Inr False)))"

definition check_stability :: "config \<Rightarrow> int \<Rightarrow> game \<Rightarrow> error + (bool \<times> game)" where
  "check_stability cfg current_pop g =
     and_then (shift_history (rev [1..<HISTORY_SIZE cfg]) (population_history g)) (\<lambda>shifted.
     and_then (list_set shifted 0 current_pop) (\<lambda>hist.
     and_then (stability_checks cfg hist) (\<lambda>stable.
       Inr (stable, g\<lparr>population_history := hist\<rparr>))))"

subsection \<open>\<open>handle_stable_state\<close> and \<open>run\<close>\<close>

definition handle_stable_state :: "config \<Rightarrow> game \<Rightarrow> error + game" where
  "handle_stable_state cfg g =
     (if \<not> AUTO_RESET_ON_STABLE cfg then Inr g
      else
        and_then (count_population cfg g) (\<lambda>current_pop.
        and_then (check_stability cfg current_pop g) (\<lambda>(stable, ga).
        and_then
          (if stable
           then (let gb = ga\<lparr>stable_count := stable_count ga + 1\<rparr> in
                 if stable_count gb \<ge> STABLE_GENERATIONS cfg
                 then and_then
                        (randomize cfg (33 / 100)
                           (gb\<lparr>console := console gb @ [Print_reset (generation gb)]\<rparr>))
                        (\<lambda>gc. Inr (gc\<lparr>population_history := replicate (HISTORY_SIZE cfg) 0,
                                      stable_count := 0,
                                      generation := 0,
                                      console := console gc @ [Sleep_half_second]\<rparr>))
                 else Inr gb)
           else Inr (ga\<lparr>stable_count := 0\<rparr>))
          (\<lambda>gd. Inr (gd\<lparr>generation := generation gd + 1\<rparr>)))))"

text \<open>One iteration of \<open>while True\<close> in \<open>run\<close>: the rule, the swap of the two references,
  the switch of the displayed group. The call of \<open>handle_stable_state\<close> is commented out
  in the source (line 239), so the iteration does not make it.\<close>

definition run_iteration :: "config \<Rightarrow> game \<Rightarrow> error + game" where
  "run_iteration cfg g =
     and_then (apply_life_rule_with_fade cfg g) (\<lambda>ga.
       let gb = ga\<lparr>current_bitmap := next_bitmap ga, next_bitmap := current_bitmap ga\<rparr>
       in Inr (gb\<lparr>root_group := (if root_group gb = G1 then G2 else G1)\<rparr>))"

text \<open>The loop never ends; \<open>run_loop n\<close> is the state after \<open>n\<close> iterations.\<close>

fun run_loop :: "nat \<Rightarrow> config \<Rightarrow> game \<Rightarrow> error + game" where
  "run_loop 0 cfg g = Inr g"
| "run_loop (Suc n) cfg g = and_then (run_iteration cfg g) (run_loop n cfg)"

definition run :: "nat \<Rightarrow> config \<Rightarrow> game \<Rightarrow> error + game" where
  "run n cfg g =
     and_then (randomize cfg (33 / 100) (g\<lparr>auto_refresh := True\<rparr>)) (run_loop n cfg)"

section \<open>Vocabulary of the properties\<close>

text \<open>
  The definitions of this section are not translations of source functions. They state
  what the specification says about the grid and the history, in its words, so that the
  theorems can compare the loops of the source with them; they name the states the loops
  pass through; and they fix the concrete grids on which theorems are evaluated.
\<close>

subsection \<open>Configurations and states the properties are about\<close>

text \<open>The configurations of the specification (section 6): at least two fade levels, a
  decay rate of at least 1. The fade buffer is a \<open>bytearray\<close>, so the max fade level must
  fit a byte. \<open>well_formed\<close> is what \<open>__init__\<close> establishes and \<open>run\<close> keeps: three
  buffers of \<open>width * height\<close> cells, two distinct bitmaps for the two roles, and the two
  precomputed constants. \<open>values_in_range\<close> is the invariant of the data model
  (section 3): every stored value is in \<open>[0, FADE_LEVELS - 1]\<close>.\<close>

definition valid_config :: "config \<Rightarrow> bool" where
  "valid_config cfg \<longleftrightarrow>
     2 \<le> FADE_LEVELS cfg \<and> FADE_LEVELS cfg \<le> 256 \<and> 1 \<le> FADE_DECAY_RATE cfg"

definition well_formed :: "game \<Rightarrow> bool" where
  "well_formed g \<longleftrightarrow>
     length (b1 g) = width g * height g \<and>
     length (b2 g) = width g * height g \<and>
     length (fade_buffer g) = width g * height g \<and>
     current_bitmap g \<noteq> next_bitmap g \<and>
     width_minus_1 g = width g - 1 \<and>
     height_minus_1 g = height g - 1"

definition values_in_range :: "config \<Rightarrow> game \<Rightarrow> bool" where
  "values_in_range cfg g \<longleftrightarrow>
     (\<forall>v \<in> set (b1 g) \<union> set (b2 g) \<union> set (fade_buffer g). 0 \<le> v \<and> v \<le> FADE_LEVELS cfg - 1)"

definition in_range :: "config \<Rightarrow> int list \<Rightarrow> bool" where
  "in_range cfg xs \<longleftrightarrow> (\<forall>v \<in> set xs. 0 \<le> v \<and> v \<le> FADE_LEVELS cfg - 1)"

subsection \<open>The rule of the specification\<close>

text \<open>Section 4.1: the wrapped neighbours of a coordinate \<open>c\<close> in a dimension \<open>n\<close> are
  \<open>(c - 1) mod n\<close> and \<open>(c + 1) mod n\<close>. Section 4.2: the eight wrapped neighbours of a
  cell, the number of them that are at the max fade level, the survival rule, and the
  value of the cell in the next buffer and in the fade buffer. The cell \<open>(x, y)\<close> is
  stored at index \<open>x + y * width\<close>.\<close>

definition wrap_prev :: "nat \<Rightarrow> nat \<Rightarrow> nat" where
  "wrap_prev n c = (c + n - 1) mod n"

definition wrap_next :: "nat \<Rightarrow> nat \<Rightarrow> nat" where
  "wrap_next n c = (c + 1) mod n"

definition neighborhood :: "nat \<Rightarrow> nat \<Rightarrow> nat \<Rightarrow> nat \<Rightarrow> (nat \<times> nat) list" where
  "neighborhood w h x y =
     [(wrap_prev w x, wrap_prev h y), (x, wrap_prev h y), (wrap_next w x, wrap_prev h y),
      (wrap_prev w x, y), (wrap_next w x, y),
      (wrap_prev w x, wrap_next h y), (x, wrap_next h y), (wrap_next w x, wrap_next h y)]"

definition cell_value :: "nat \<Rightarrow> int list \<Rightarrow> nat \<times> nat \<Rightarrow> int" where
  "cell_value w buf p = buf ! (fst p + snd p * w)"

definition live_neighbors :: "int \<Rightarrow> nat \<Rightarrow> nat \<Rightarrow> int list \<Rightarrow> nat \<Rightarrow> nat \<Rightarrow> nat" where
  "live_neighbors max_fade w h buf x y =
     length (filter (\<lambda>p. cell_value w buf p = max_fade) (neighborhood w h x y))"

definition lives_next :: "int \<Rightarrow> nat \<Rightarrow> nat \<Rightarrow> int list \<Rightarrow> nat \<Rightarrow> nat \<Rightarrow> bool" where
  "lives_next max_fade w h buf x y \<longleftrightarrow>
     live_neighbors max_fade w h buf x y = 3 \<or>
     (live_neighbors max_fade w h buf x y = 2 \<and> cell_value w buf (x, y) = max_fade)"

definition decayed :: "int \<Rightarrow> int \<Rightarrow> int" where
  "decayed rate f = (if f > 0 then max 0 (f - rate) else f)"

definition fade_next :: "config \<Rightarrow> nat \<Rightarrow> nat \<Rightarrow> int list \<Rightarrow> int list \<Rightarrow> nat \<Rightarrow> int" where
  "fade_next cfg w h buf fade i =
     (if lives_next (FADE_LEVELS cfg - 1) w h buf (i mod w) (i div w)
      then FADE_LEVELS cfg - 1
      else decayed (FADE_DECAY_RATE cfg) (fade ! i))"

definition generation_result :: "config \<Rightarrow> nat \<Rightarrow> nat \<Rightarrow> int list \<Rightarrow> int list \<Rightarrow> int list" where
  "generation_result cfg w h buf fade = map (fade_next cfg w h buf fade) [0..<w * h]"

subsection \<open>The states inside the loops\<close>

text \<open>\<open>put_bitmap\<close> replaces the contents of the bitmap a reference names.
  \<open>spliced k new old\<close> is a buffer whose first \<open>k\<close> cells have been written.
  \<open>partial_result cfg g k\<close> is the state of \<open>apply_life_rule_with_fade\<close> after \<open>k\<close> cells,
  \<open>partial_random cfg t g a\<close> the state of \<open>randomize\<close> after \<open>a\<close> cells (and draws);
  \<open>random_cells\<close> are the values \<open>randomize\<close> writes for the threshold \<open>t\<close>. \<open>hit\<close> is the
  contribution of one read to the neighbour count.\<close>

definition put_bitmap :: "bitmap_id \<Rightarrow> int list \<Rightarrow> game \<Rightarrow> game" where
  "put_bitmap b buf g = (case b of B1 \<Rightarrow> g\<lparr>b1 := buf\<rparr> | B2 \<Rightarrow> g\<lparr>b2 := buf\<rparr>)"

definition spliced :: "nat \<Rightarrow> int list \<Rightarrow> int list \<Rightarrow> int list" where
  "spliced k new old = take k new @ drop k old"

definition partial_result :: "config \<Rightarrow> game \<Rightarrow> nat \<Rightarrow> game" where
  "partial_result cfg g k =
     (let new = generation_result cfg (width g) (height g) (bitmap_of (current_bitmap g) g)
                  (fade_buffer g)
      in put_bitmap (next_bitmap g) (spliced k new (bitmap_of (next_bitmap g) g))
           (g\<lparr>fade_buffer := spliced k new (fade_buffer g)\<rparr>))"

definition hit :: "int \<Rightarrow> int list \<Rightarrow> nat \<Rightarrow> int" where
  "hit mf buf i = (if buf ! i = mf then 1 else 0)"

definition generation_of :: "config \<Rightarrow> game \<Rightarrow> int list" where
  "generation_of cfg g =
     generation_result cfg (width g) (height g) (bitmap_of (current_bitmap g) g) (fade_buffer g)"

definition random_cells :: "config \<Rightarrow> int \<Rightarrow> game \<Rightarrow> int list" where
  "random_cells cfg t g =
     map (\<lambda>i. if int (random_bits g (random_pos g + i) mod 32768) < t
              then FADE_LEVELS cfg - 1 else 0)
       [0..<width g * height g]"

definition partial_random :: "config \<Rightarrow> int \<Rightarrow> game \<Rightarrow> nat \<Rightarrow> game" where
  "partial_random cfg t g a =
     put_bitmap (current_bitmap g)
       (spliced a (random_cells cfg t g) (bitmap_of (current_bitmap g) g))
       (g\<lparr>fade_buffer := spliced a (random_cells cfg t g) (fade_buffer g),
          random_pos := random_pos g + a\<rparr>)"

subsection \<open>The stability predicate of the specification\<close>

text \<open>Section 4.4, on a window of \<open>n\<close> counts: static, or period 2, or bounded
  oscillation. \<open>population\<close> is the number of live cells, \<open>pushed_history\<close> the window
  after a push, and \<open>tracking_ok\<close> the states on which \<open>handle_stable_state\<close> runs its
  checks without an error.\<close>

definition is_stable :: "nat \<Rightarrow> int list \<Rightarrow> bool" where
  "is_stable n window \<longleftrightarrow>
     window ! 0 = window ! 1
     \<or> (3 \<le> n \<and> window ! 0 = window ! 2 \<and> window ! 0 \<noteq> window ! 1)
     \<or> (3 \<le> n \<and> card (set window) \<le> 3 \<and> Max (set window) - Min (set window) \<le> 2)"

definition population :: "config \<Rightarrow> game \<Rightarrow> int" where
  "population cfg g =
     int (length (filter (\<lambda>v. v = FADE_LEVELS cfg - 1) (bitmap_of (current_bitmap g) g)))"

definition pushed_history :: "config \<Rightarrow> game \<Rightarrow> int list" where
  "pushed_history cfg g = population cfg g # butlast (population_history g)"

definition tracking_ok :: "config \<Rightarrow> game \<Rightarrow> bool" where
  "tracking_ok cfg g \<longleftrightarrow>
     AUTO_RESET_ON_STABLE cfg \<and> 2 \<le> HISTORY_SIZE cfg
     \<and> length (population_history g) = HISTORY_SIZE cfg
     \<and> length (bitmap_of (current_bitmap g) g) = width g * height g
     \<and> length (fade_buffer g) = width g * height g"

subsection \<open>Concrete grids\<close>

text \<open>A 3 by 3 grid whose only live cell is \<open>(0,0)\<close>: the state after \<open>__init__\<close> and
  one \<open>randomize(0.33)\<close> in which only the first draw is below the threshold.\<close>

definition corner_grid :: game where
  "corner_grid =
     (init source_config 3 3 (\<lambda>i. if i = 0 then 0 else 32767))
       \<lparr>b1 := [7, 0, 0, 0, 0, 0, 0, 0, 0],
        fade_buffer := [7, 0, 0, 0, 0, 0, 0, 0, 0],
        random_pos := 9\<rparr>"

text \<open>The all-dead 2 by 2 grid: the state after \<open>__init__\<close> and the first \<open>randomize(0.33)\<close>
  of \<open>run\<close> when every draw is \<open>32767\<close>. \<open>repeatedly n f\<close> calls \<open>f\<close> \<open>n\<close> times in a row,
  stopping at the first error.\<close>

definition dead_grid :: game where
  "dead_grid = (init source_config 2 2 (\<lambda>i. 32767))\<lparr>auto_refresh := True, random_pos := 4\<rparr>"

fun repeatedly :: "nat \<Rightarrow> (game \<Rightarrow> error + game) \<Rightarrow> game \<Rightarrow> error + game" where
  "repeatedly 0 f g = Inr g"
| "repeatedly (Suc n) f g = and_then (f g) (repeatedly n f)"

section \<open>Properties\<close>

subsection \<open>Evaluation helpers\<close>

lemma rev_upt_1_3: "rev [Suc 0..<3] = [2, Suc 0]"
  by code_simp

subsection \<open>The stability check on three windows\<close>

text \<open>
  Claim C2. With the checks in the order of the source (static, then period 2, then
  bounded oscillation), the stability check answers true on the window \<open>[5,5,5]\<close>,
  true on \<open>[5,7,5]\<close> and false on \<open>[5,7,9]\<close>. Each window is reached by
  \<open>check_stability\<close> pushing the population 5 onto a history that begins with the two
  older counts; the three checks alone give the same answers.
\<close>

theorem check_stability_windows:
  "check_stability source_config 5 (g\<lparr>population_history := [5, 5, z]\<rparr>)
     = Inr (True, g\<lparr>population_history := [5, 5, 5]\<rparr>)
   \<and> check_stability source_config 5 (g\<lparr>population_history := [7, 5, z]\<rparr>)
     = Inr (True, g\<lparr>population_history := [5, 7, 5]\<rparr>)
   \<and> check_stability source_config 5 (g\<lparr>population_history := [7, 9, z]\<rparr>)
     = Inr (False, g\<lparr>population_history := [5, 7, 9]\<rparr>)
   \<and> stability_checks source_config [5, 5, 5] = Inr True
   \<and> stability_checks source_config [5, 7, 5] = Inr True
   \<and> stability_checks source_config [5, 7, 9] = Inr False"
  by (simp add: check_stability_def stability_checks_def source_config_def and_then_def
      list_get_def list_set_def rev_upt_1_3)

subsection \<open>Sequencing\<close>

lemma and_then_Inr [simp]: "and_then (Inr x) f = f x"
  by (simp add: and_then_def)

lemma and_then_Inl [simp]: "and_then (Inl e) f = Inl e"
  by (simp add: and_then_def)

subsection \<open>Reading and writing a bitmap through a reference\<close>

lemma bitmap_of_put_same [simp]: "bitmap_of b (put_bitmap b buf g) = buf"
  by (cases b) (simp_all add: bitmap_of_def put_bitmap_def)

lemma bitmap_of_put_other [simp]: "c \<noteq> b \<Longrightarrow> bitmap_of c (put_bitmap b buf g) = bitmap_of c g"
  by (cases b; cases c) (simp_all add: bitmap_of_def put_bitmap_def)

lemma bitmap_of_fade_update [simp]: "bitmap_of b (g\<lparr>fade_buffer := f\<rparr>) = bitmap_of b g"
  by (cases b) (simp_all add: bitmap_of_def)

lemma fade_buffer_put [simp]: "fade_buffer (put_bitmap b buf g) = fade_buffer g"
  by (cases b) (simp_all add: put_bitmap_def)

lemma put_put [simp]: "put_bitmap b buf (put_bitmap b old g) = put_bitmap b buf g"
  by (cases b) (simp_all add: put_bitmap_def)

lemma put_fade_commute: "(put_bitmap b buf g)\<lparr>fade_buffer := f\<rparr> = put_bitmap b buf (g\<lparr>fade_buffer := f\<rparr>)"
  by (cases b) (simp_all add: put_bitmap_def)

lemma put_bitmap_id [simp]: "put_bitmap b (bitmap_of b g) g = g"
  by (cases b) (simp_all add: put_bitmap_def bitmap_of_def)

lemma bitmap_store_put:
  "bitmap_store b i v g =
     (if i < length (bitmap_of b g) then Inr (put_bitmap b ((bitmap_of b g)[i := v]) g)
      else Inl IndexError)"
  by (cases b) (simp_all add: bitmap_store_def put_bitmap_def bitmap_of_def)

lemma other_fields_put [simp]:
  "width (put_bitmap b buf g) = width g"
  "height (put_bitmap b buf g) = height g"
  "current_bitmap (put_bitmap b buf g) = current_bitmap g"
  "next_bitmap (put_bitmap b buf g) = next_bitmap g"
  "random_pos (put_bitmap b buf g) = random_pos g"
  "random_bits (put_bitmap b buf g) = random_bits g"
  by (cases b; simp add: put_bitmap_def)+

subsection \<open>A buffer written up to an index\<close>

lemma length_spliced [simp]: "length old = length new \<Longrightarrow> length (spliced k new old) = length new"
  by (simp add: spliced_def)

lemma spliced_0 [simp]: "spliced 0 new old = old"
  by (simp add: spliced_def)

lemma spliced_all [simp]: "length old = length new \<Longrightarrow> spliced (length new) new old = new"
  by (simp add: spliced_def)

lemma spliced_nth_old: "k \<le> i \<Longrightarrow> i < length old \<Longrightarrow> length old = length new \<Longrightarrow> spliced k new old ! i = old ! i"
  by (simp add: spliced_def nth_append)

lemma spliced_step:
  assumes "k < length new" "length old = length new"
  shows "(spliced k new old)[k := new ! k] = spliced (Suc k) new old"
proof -
  have "drop k old = old ! k # drop (Suc k) old"
    using assms by (simp add: Cons_nth_drop_Suc)
  then have "(spliced k new old)[k := new ! k] = take k new @ (new ! k # drop (Suc k) old)"
    using assms by (simp add: spliced_def list_update_append)
  also have "\<dots> = spliced (Suc k) new old"
    using assms by (simp add: spliced_def take_Suc_conv_app_nth)
  finally show ?thesis .
qed

subsection \<open>The wrapped coordinates\<close>

lemma wrap_prev_eq: "c < n \<Longrightarrow> wrap_prev n c = (if c = 0 then n - 1 else c - 1)"
proof (cases "c = 0")
  case True
  assume "c < n"
  with True show ?thesis by (simp add: wrap_prev_def)
next
  case False
  assume "c < n"
  with False have lt: "c - 1 < n" by simp
  from False have "c + n - 1 = (c - 1) + n" by simp
  then have "(c + n - 1) mod n = ((c - 1) + n) mod n" by (rule arg_cong)
  also have "\<dots> = c - 1" using lt by simp
  finally show ?thesis using False by (simp only: wrap_prev_def if_False)
qed

lemma wrap_next_eq: "c < n \<Longrightarrow> wrap_next n c = (if c = n - 1 then 0 else c + 1)"
  by (auto simp: wrap_next_def)

lemma wrap_prev_lt [simp]: "0 < n \<Longrightarrow> wrap_prev n c < n"
  by (simp add: wrap_prev_def)

lemma wrap_next_lt [simp]: "0 < n \<Longrightarrow> wrap_next n c < n"
  by (simp add: wrap_next_def)

lemma cell_index_lt: "a < w \<Longrightarrow> b < h \<Longrightarrow> a + b * w < w * (h::nat)"
proof -
  assume a: "a < w" and b: "b < h"
  have "a + b * w < w + b * w" using a by simp
  also have "\<dots> = Suc b * w" by simp
  also have "\<dots> \<le> h * w" using b by (intro mult_le_mono1) simp
  finally show ?thesis by (simp add: mult.commute)
qed

subsection \<open>The eight reads of a cell\<close>

lemma count_neighbor_hit:
  "i < length (bitmap_of c g) \<Longrightarrow> count_neighbor c mf g i n = Inr (n + hit mf (bitmap_of c g) i)"
  by (simp add: count_neighbor_def bitmap_load_def hit_def)

lemma length_filter_hits:
  "int (length (filter (\<lambda>p. cell_value w buf p = mf) ps)) = (\<Sum>p\<leftarrow>ps. hit mf buf (fst p + snd p * w))"
  by (induction ps) (simp_all add: hit_def cell_value_def)

lemma count_neighbors_eq:
  assumes len: "length (bitmap_of c g) = w * h" and x: "x < w" and y: "y < h"
  shows "count_neighbors c mf (wrap_prev h y * w) (y * w) (wrap_next h y * w)
           (wrap_prev w x) x (wrap_next w x) g
         = Inr (int (live_neighbors mf w h (bitmap_of c g) x y))"
proof -
  have w: "0 < w" and h: "0 < h" using x y by simp_all
  have b: "wrap_prev w x + wrap_prev h y * w < length (bitmap_of c g)"
          "x + wrap_prev h y * w < length (bitmap_of c g)"
          "wrap_next w x + wrap_prev h y * w < length (bitmap_of c g)"
          "wrap_prev w x + y * w < length (bitmap_of c g)"
          "wrap_next w x + y * w < length (bitmap_of c g)"
          "wrap_prev w x + wrap_next h y * w < length (bitmap_of c g)"
          "x + wrap_next h y * w < length (bitmap_of c g)"
          "wrap_next w x + wrap_next h y * w < length (bitmap_of c g)"
    using w h x y by (simp_all only: len cell_index_lt wrap_prev_lt wrap_next_lt)
  show ?thesis
    unfolding count_neighbors_def live_neighbors_def length_filter_hits neighborhood_def
    by (simp add: count_neighbor_hit b)
qed

subsection \<open>The body of the inner loop\<close>

lemma generation_result_nth:
  assumes "x < w" "y < h"
  shows "generation_result cfg w h buf fade ! (x + y * w) =
           (if lives_next (FADE_LEVELS cfg - 1) w h buf x y then FADE_LEVELS cfg - 1
            else decayed (FADE_DECAY_RATE cfg) (fade ! (x + y * w)))"
proof -
  have "x + y * w < w * h" using assms by (rule cell_index_lt)
  then show ?thesis
    using assms(1) by (simp add: generation_result_def fade_next_def)
qed

lemma length_generation_result [simp]: "length (generation_result cfg w h buf fade) = w * h"
  by (simp add: generation_result_def)

lemma length_bitmap_of: "well_formed g \<Longrightarrow> length (bitmap_of b g) = width g * height g"
  by (cases b) (simp_all add: well_formed_def bitmap_of_def)

lemma fade_store_eq:
  "fade_store i v g = (if i < length (fade_buffer g) then Inr (g\<lparr>fade_buffer := (fade_buffer g)[i := v]\<rparr>) else Inl IndexError)"
  by (simp add: fade_store_def)

lemma cell_body_step:
  assumes wf: "well_formed g" and x: "x < width g" and y: "y < height g"
  shows "cell_body cfg (current_bitmap g) (next_bitmap g) (width g - 1) (FADE_LEVELS cfg - 1)
           (wrap_prev (height g) y * width g) (y * width g) (wrap_next (height g) y * width g)
           (wrap_prev (width g) x) x (partial_result cfg g (x + y * width g))
         = Inr (partial_result cfg g (Suc (x + y * width g)))"
proof -
  define w h k cur nxt buf new P mf
    where "w = width g" and "h = height g" and "k = x + y * w"
      and "cur = current_bitmap g" and "nxt = next_bitmap g"
      and "buf = bitmap_of cur g"
      and "new = generation_result cfg w h buf (fade_buffer g)"
      and "P = partial_result cfg g k"
      and "mf = FADE_LEVELS cfg - 1"
  have ne: "cur \<noteq> nxt" using wf by (simp add: well_formed_def cur_def nxt_def)
  have k: "k < w * h" unfolding k_def using x y unfolding w_def h_def by (rule cell_index_lt)
  have len_new: "length new = w * h" by (simp add: new_def)
  have len_nxt: "length (bitmap_of nxt g) = length new"
    using wf by (simp add: length_bitmap_of len_new w_def h_def)
  have len_fade: "length (fade_buffer g) = length new"
    using wf by (simp add: well_formed_def len_new w_def h_def)
  have len_buf: "length buf = w * h"
    using wf by (simp add: length_bitmap_of buf_def w_def h_def)
  have P: "P = put_bitmap nxt (spliced k new (bitmap_of nxt g))
                 (g\<lparr>fade_buffer := spliced k new (fade_buffer g)\<rparr>)"
    by (simp add: P_def partial_result_def new_def buf_def cur_def nxt_def w_def h_def Let_def)
  have P_cur: "bitmap_of cur P = buf" using ne by (simp add: P buf_def)
  have P_nxt: "bitmap_of nxt P = spliced k new (bitmap_of nxt g)" by (simp add: P)
  have P_fade: "fade_buffer P = spliced k new (fade_buffer g)" by (simp add: P)
  have xp1: "(if x = w - 1 then 0 else x + 1) = wrap_next w x"
    using x by (simp add: wrap_next_eq w_def)
  have cnt: "count_neighbors cur mf (wrap_prev h y * w) (y * w) (wrap_next h y * w)
               (wrap_prev w x) x (wrap_next w x) P
             = Inr (int (live_neighbors mf w h buf x y))"
    using count_neighbors_eq [of cur P w h x y mf] len_buf x y
    by (simp add: P_cur w_def h_def)
  have load: "bitmap_load cur k P = Inr (buf ! k)"
    using k by (simp add: bitmap_load_def P_cur len_buf)
  have cond: "(int (live_neighbors mf w h buf x y) = 3 \<or>
               (int (live_neighbors mf w h buf x y) = 2 \<and> buf ! k = mf))
              \<longleftrightarrow> lives_next mf w h buf x y"
    by (simp add: lives_next_def cell_value_def k_def)
  have new_k: "new ! k = (if lives_next mf w h buf x y then mf
                          else decayed (FADE_DECAY_RATE cfg) (fade_buffer g ! k))"
    unfolding new_def k_def mf_def using x y
    by (simp add: generation_result_nth w_def h_def)
  have old_k: "spliced k new (fade_buffer g) ! k = fade_buffer g ! k"
    using k len_fade len_new by (simp add: spliced_nth_old)
  have step_nxt: "(spliced k new (bitmap_of nxt g))[k := new ! k] = spliced (Suc k) new (bitmap_of nxt g)"
    using k len_nxt len_new by (simp add: spliced_step)
  have step_fade: "(spliced k new (fade_buffer g))[k := new ! k] = spliced (Suc k) new (fade_buffer g)"
    using k len_fade len_new by (simp add: spliced_step)
  have k_nxt: "k < length (spliced k new (bitmap_of nxt g))"
    using k len_nxt len_new by simp
  have k_fade: "k < length (spliced k new (fade_buffer g))"
    using k len_fade len_new by simp
  have goal: "Inr (partial_result cfg g (Suc k)) =
      Inr (put_bitmap nxt (spliced (Suc k) new (bitmap_of nxt g))
                 (g\<lparr>fade_buffer := spliced (Suc k) new (fade_buffer g)\<rparr>))"
    by (simp add: partial_result_def new_def buf_def cur_def nxt_def w_def h_def Let_def)
  have body: "cell_body cfg cur nxt (w - 1) mf (wrap_prev h y * w) (y * w) (wrap_next h y * w)
           (wrap_prev w x) x P
       = Inr (put_bitmap nxt (spliced (Suc k) new (bitmap_of nxt g))
                 (g\<lparr>fade_buffer := spliced (Suc k) new (fade_buffer g)\<rparr>))"
  proof (cases "lives_next mf w h buf x y")
    case True
    then have nk: "new ! k = mf" by (simp add: new_k)
    have "cell_body cfg cur nxt (w - 1) mf (wrap_prev h y * w) (y * w) (wrap_next h y * w)
           (wrap_prev w x) x P
        = and_then (bitmap_store nxt k mf P) (fade_store k mf)"
      unfolding cell_body_def Let_def xp1 cnt k_def [symmetric]
      using True cond by (simp only: and_then_Inr load if_True)
    also have "bitmap_store nxt k mf P = Inr (put_bitmap nxt (spliced (Suc k) new (bitmap_of nxt g))
                 (g\<lparr>fade_buffer := spliced k new (fade_buffer g)\<rparr>))"
      using k_nxt step_nxt by (simp add: bitmap_store_put P_nxt nk) (simp add: P)
    also have "and_then (Inr (put_bitmap nxt (spliced (Suc k) new (bitmap_of nxt g))
                 (g\<lparr>fade_buffer := spliced k new (fade_buffer g)\<rparr>))) (fade_store k mf)
       = Inr (put_bitmap nxt (spliced (Suc k) new (bitmap_of nxt g))
                 (g\<lparr>fade_buffer := spliced (Suc k) new (fade_buffer g)\<rparr>))"
      using k_fade step_fade by (simp add: fade_store_eq nk put_fade_commute)
    finally show ?thesis .
  next
    case False
    define f where "f = fade_buffer g ! k"
    have nk: "new ! k = decayed (FADE_DECAY_RATE cfg) f" using False by (simp add: new_k f_def)
    have fl: "fade_load k P = Inr f"
      using k_fade by (simp add: fade_load_def P_fade old_k f_def)
    define Q where "Q = put_bitmap nxt (spliced k new (bitmap_of nxt g))
                 (g\<lparr>fade_buffer := spliced (Suc k) new (fade_buffer g)\<rparr>)"
    have dec: "(if f > 0 then fade_store k (max 0 (f - FADE_DECAY_RATE cfg)) P else Inr P) = Inr Q"
    proof (cases "f > 0")
      case True
      then have "new ! k = max 0 (f - FADE_DECAY_RATE cfg)" by (simp add: nk decayed_def)
      then show ?thesis
        using True k_fade step_fade by (simp add: fade_store_eq P Q_def put_fade_commute)
    next
      case False
      then have "new ! k = spliced k new (fade_buffer g) ! k" by (simp add: nk decayed_def old_k f_def)
      then have "spliced (Suc k) new (fade_buffer g) = spliced k new (fade_buffer g)"
        using step_fade by simp
      then show ?thesis using False by (simp add: P Q_def)
    qed
    have Q_fade: "fade_buffer Q = spliced (Suc k) new (fade_buffer g)" by (simp add: Q_def)
    have Q_k: "spliced (Suc k) new (fade_buffer g) ! k = new ! k"
      using step_fade [symmetric] k_fade by simp
    have fl2: "fade_load k Q = Inr (new ! k)"
      using k len_fade len_new by (simp add: fade_load_def Q_fade Q_k)
    have st: "bitmap_store nxt k (new ! k) Q = Inr (put_bitmap nxt (spliced (Suc k) new (bitmap_of nxt g))
                 (g\<lparr>fade_buffer := spliced (Suc k) new (fade_buffer g)\<rparr>))"
      using k_nxt step_nxt by (simp add: bitmap_store_put Q_def)
    have "cell_body cfg cur nxt (w - 1) mf (wrap_prev h y * w) (y * w) (wrap_next h y * w)
           (wrap_prev w x) x P
        = and_then (fade_load k P)
            (\<lambda>f. and_then (if f > 0 then fade_store k (max 0 (f - FADE_DECAY_RATE cfg)) P else Inr P)
               (\<lambda>ga. and_then (fade_load k ga) (\<lambda>fa. bitmap_store nxt k fa ga)))"
      unfolding cell_body_def Let_def xp1 cnt k_def [symmetric]
      using False cond by (simp only: and_then_Inr load if_False)
    also have "\<dots> = Inr (put_bitmap nxt (spliced (Suc k) new (bitmap_of nxt g))
                 (g\<lparr>fade_buffer := spliced (Suc k) new (fade_buffer g)\<rparr>))"
      by (simp only: fl and_then_Inr dec fl2 st)
    finally show ?thesis .
  qed
  show ?thesis
    using body goal by (simp add: P_def k_def w_def h_def cur_def nxt_def mf_def)
qed

subsection \<open>The loops of \<open>apply_life_rule_with_fade\<close>\<close>

lemma row_loop_steps:
  assumes wf: "well_formed g" and y: "y < height g"
  shows "a \<le> width g \<Longrightarrow> (a < width g \<Longrightarrow> xm1 = wrap_prev (width g) a) \<Longrightarrow>
     row_loop cfg (current_bitmap g) (next_bitmap g) (width g - 1) (FADE_LEVELS cfg - 1)
       (wrap_prev (height g) y * width g) (y * width g) (wrap_next (height g) y * width g)
       [a..<width g] xm1 (partial_result cfg g (a + y * width g))
     = Inr (partial_result cfg g (width g + y * width g))"
proof (induction "width g - a" arbitrary: a xm1)
  case 0
  then have "a = width g" by simp
  then show ?case by simp
next
  case (Suc n)
  then have a: "a < width g" by simp
  then have xm1: "xm1 = wrap_prev (width g) a" by (rule Suc.prems(2))
  have list: "[a..<width g] = a # [Suc a..<width g]" using a by (rule upt_conv_Cons)
  have next_xm1: "Suc a < width g \<Longrightarrow> a = wrap_prev (width g) (Suc a)"
    by (simp add: wrap_prev_eq)
  have ih: "row_loop cfg (current_bitmap g) (next_bitmap g) (width g - 1) (FADE_LEVELS cfg - 1)
       (wrap_prev (height g) y * width g) (y * width g) (wrap_next (height g) y * width g)
       [Suc a..<width g] a (partial_result cfg g (Suc a + y * width g))
     = Inr (partial_result cfg g (width g + y * width g))"
    using Suc.hyps(2) a next_xm1 by (intro Suc.hyps(1)) simp_all
  show ?case
    unfolding list row_loop.simps xm1 cell_body_step [OF wf a y] and_then_Inr
    using ih by simp
qed

lemma row_body_step:
  assumes wf: "well_formed g" and y: "y < height g"
  shows "row_body cfg (current_bitmap g) (next_bitmap g) (width g) (height g)
           (width g - 1) (height g - 1) (FADE_LEVELS cfg - 1) y (partial_result cfg g (y * width g))
         = Inr (partial_result cfg g (Suc y * width g))"
proof -
  have ym1: "(if y = 0 then (height g - 1) * width g else (y - 1) * width g)
               = wrap_prev (height g) y * width g"
    using y by (simp add: wrap_prev_eq)
  have yp1: "(if y = height g - 1 then 0 else (y + 1) * width g)
               = wrap_next (height g) y * width g"
    using y by (simp add: wrap_next_eq)
  have "row_loop cfg (current_bitmap g) (next_bitmap g) (width g - 1) (FADE_LEVELS cfg - 1)
       (wrap_prev (height g) y * width g) (y * width g) (wrap_next (height g) y * width g)
       [0..<width g] (width g - 1) (partial_result cfg g (0 + y * width g))
     = Inr (partial_result cfg g (width g + y * width g))"
    using wf y by (rule row_loop_steps) (simp_all add: wrap_prev_eq)
  then show ?thesis
    unfolding row_body_def Let_def ym1 yp1 by simp
qed

lemma rows_loop_steps:
  assumes wf: "well_formed g"
  shows "b \<le> height g \<Longrightarrow>
     rows_loop cfg (current_bitmap g) (next_bitmap g) (width g) (height g)
       (width g - 1) (height g - 1) (FADE_LEVELS cfg - 1) [b..<height g]
       (partial_result cfg g (b * width g))
     = Inr (partial_result cfg g (height g * width g))"
proof (induction "height g - b" arbitrary: b)
  case 0
  then have "b = height g" by simp
  then show ?case by simp
next
  case (Suc n)
  then have b: "b < height g" by simp
  have list: "[b..<height g] = b # [Suc b..<height g]" using b by (rule upt_conv_Cons)
  have ih: "rows_loop cfg (current_bitmap g) (next_bitmap g) (width g) (height g)
       (width g - 1) (height g - 1) (FADE_LEVELS cfg - 1) [Suc b..<height g]
       (partial_result cfg g (Suc b * width g))
     = Inr (partial_result cfg g (height g * width g))"
    using Suc.hyps(2) b by (intro Suc.hyps(1)) simp_all
  show ?case
    unfolding list rows_loop.simps row_body_step [OF wf b] and_then_Inr
    by (rule ih)
qed

lemma partial_result_0: "partial_result cfg g 0 = g"
  by (simp add: partial_result_def Let_def)

lemma partial_result_all:
  assumes "well_formed g"
  shows "partial_result cfg g (height g * width g)
           = put_bitmap (next_bitmap g) (generation_of cfg g) (g\<lparr>fade_buffer := generation_of cfg g\<rparr>)"
proof -
  have "length (bitmap_of (next_bitmap g) g) = length (generation_of cfg g)"
       "length (fade_buffer g) = length (generation_of cfg g)"
       "height g * width g = length (generation_of cfg g)"
    using assms by (simp_all add: length_bitmap_of generation_of_def well_formed_def)
  then show ?thesis
    unfolding partial_result_def Let_def generation_of_def [symmetric]
    by (simp only: spliced_all)
qed

lemma apply_life_rule_with_fade_eq:
  assumes wf: "well_formed g"
  shows "apply_life_rule_with_fade cfg g
           = Inr (put_bitmap (next_bitmap g) (generation_of cfg g) (g\<lparr>fade_buffer := generation_of cfg g\<rparr>))"
proof -
  have "rows_loop cfg (current_bitmap g) (next_bitmap g) (width g) (height g)
       (width g - 1) (height g - 1) (FADE_LEVELS cfg - 1) [0..<height g]
       (partial_result cfg g (0 * width g))
     = Inr (partial_result cfg g (height g * width g))"
    using wf by (rule rows_loop_steps) simp
  then show ?thesis
    using wf unfolding apply_life_rule_with_fade_def
    by (simp add: partial_result_0 partial_result_all well_formed_def)
qed

subsection \<open>The value of a cell after the generation step\<close>

lemma generation_of_nth:
  assumes "x < width g" "y < height g"
  shows "generation_of cfg g ! (x + y * width g) =
           (if lives_next (FADE_LEVELS cfg - 1) (width g) (height g) (bitmap_of (current_bitmap g) g) x y
            then FADE_LEVELS cfg - 1
            else decayed (FADE_DECAY_RATE cfg) (fade_buffer g ! (x + y * width g)))"
  unfolding generation_of_def using assms by (rule generation_result_nth)

lemma decayed_below_max:
  assumes "1 \<le> rate" "f \<le> mf" "0 < mf"
  shows "decayed rate f < mf"
  using assms by (simp add: decayed_def)

lemma decayed_clamp:
  assumes "0 \<le> rate" "0 \<le> f"
  shows "decayed rate f = max 0 (f - rate)"
  using assms by (simp add: decayed_def)

lemma fade_nth_in_range:
  assumes "values_in_range cfg g" "i < length (fade_buffer g)"
  shows "0 \<le> fade_buffer g ! i \<and> fade_buffer g ! i \<le> FADE_LEVELS cfg - 1"
  using assms by (simp add: values_in_range_def)

lemma valid_source_config: "valid_config source_config"
  by (simp add: valid_config_def source_config_def)

lemma well_formed_corner_grid: "well_formed corner_grid"
  by (simp add: well_formed_def corner_grid_def init_def)

lemma values_in_range_corner_grid: "values_in_range source_config corner_grid"
  by (simp add: values_in_range_def corner_grid_def init_def source_config_def)

lemma corner_grid_fields:
  "width corner_grid = 3" "height corner_grid = 3"
  "current_bitmap corner_grid = B1" "next_bitmap corner_grid = B2"
  "bitmap_of B1 corner_grid = [7, 0, 0, 0, 0, 0, 0, 0, 0]"
  "fade_buffer corner_grid = [7, 0, 0, 0, 0, 0, 0, 0, 0]"
  by (simp_all add: corner_grid_def init_def bitmap_of_def)

lemma list_update_Cons_numeral:
  "(x # xs)[numeral k := y] = x # xs[pred_numeral k := y]"
  by (simp add: numeral_eq_Suc)

lemma replicate_9: "replicate 9 (0::int) = [0, 0, 0, 0, 0, 0, 0, 0, 0]"
  by code_simp

lemma upt_9: "[0..<9] = [0, 1, 2, 3, 4, 5, 6, 7, 8]"
  by code_simp

lemma randomize_corner:
  "randomize source_config (33 / 100) (init source_config 3 3 (\<lambda>i. if i = 0 then 0 else 32767))
     = Inr corner_grid"
  by (simp add: randomize_def py_int_def Let_def init_def upt_9 getrandbits15_def
      bitmap_store_def fade_store_def bitmap_of_def source_config_def corner_grid_def
      replicate_9 list_update_Cons_numeral)

subsection \<open>The life rule on the torus\<close>

text \<open>
  Claim C1. For every well-formed grid whose values are in range and every cell
  \<open>(x, y)\<close>, \<open>apply_life_rule_with_fade\<close> returns, and the cell's value in the next
  buffer is the max fade level exactly when the eight toroidally wrapped neighbours
  (\<open>neighborhood\<close>, indices \<open>(c - 1) mod n\<close> and \<open>(c + 1) mod n\<close>) hold exactly 3 cells
  at the max fade level in the current buffer, or exactly 2 and the cell itself is at
  the max fade level. Only values equal to the max fade level count; on a grid narrower
  or lower than 3 a cell reached through several of the eight offsets counts once per
  offset, as in the source. On the 3 by 3
  grid whose only live cell is \<open>(0,0)\<close>, that cell is a neighbour of \<open>(2,2)\<close>, and the
  eight reads of the source for \<open>x = 2\<close>, \<open>y = 2\<close> (offsets 3, 6, 0 for the rows above,
  of and below; columns 1, 2, 0) count 1.
\<close>

theorem next_generation_life_rule:
  assumes cfg: "valid_config cfg" and wf: "well_formed g" and rng: "values_in_range cfg g"
    and x: "x < width g" and y: "y < height g"
  shows "(\<exists>g'. apply_life_rule_with_fade cfg g = Inr g' \<and>
           (bitmap_of (next_bitmap g) g' ! (x + y * width g) = FADE_LEVELS cfg - 1
            \<longleftrightarrow>
              live_neighbors (FADE_LEVELS cfg - 1) (width g) (height g)
                (bitmap_of (current_bitmap g) g) x y = 3
            \<or> (live_neighbors (FADE_LEVELS cfg - 1) (width g) (height g)
                (bitmap_of (current_bitmap g) g) x y = 2
               \<and> bitmap_of (current_bitmap g) g ! (x + y * width g) = FADE_LEVELS cfg - 1)))
         \<and> (0, 0) \<in> set (neighborhood 3 3 2 2)
         \<and> live_neighbors 7 3 3 (bitmap_of (current_bitmap corner_grid) corner_grid) 2 2 = 1
         \<and> count_neighbors B1 7 3 6 0 1 2 0 corner_grid = Inr 1"
proof -
  let ?k = "x + y * width g"
  have k: "?k < length (fade_buffer g)"
    using wf x y by (simp add: well_formed_def cell_index_lt)
  have "fade_buffer g ! ?k \<le> FADE_LEVELS cfg - 1"
    using fade_nth_in_range [OF rng k] by simp
  then have "decayed (FADE_DECAY_RATE cfg) (fade_buffer g ! ?k) < FADE_LEVELS cfg - 1"
    using cfg by (intro decayed_below_max) (simp_all add: valid_config_def)
  then have "generation_of cfg g ! ?k = FADE_LEVELS cfg - 1 \<longleftrightarrow>
        lives_next (FADE_LEVELS cfg - 1) (width g) (height g) (bitmap_of (current_bitmap g) g) x y"
    using x y by (simp add: generation_of_nth)
  then have general: "\<exists>g'. apply_life_rule_with_fade cfg g = Inr g' \<and>
           (bitmap_of (next_bitmap g) g' ! (x + y * width g) = FADE_LEVELS cfg - 1
            \<longleftrightarrow>
              live_neighbors (FADE_LEVELS cfg - 1) (width g) (height g)
                (bitmap_of (current_bitmap g) g) x y = 3
            \<or> (live_neighbors (FADE_LEVELS cfg - 1) (width g) (height g)
                (bitmap_of (current_bitmap g) g) x y = 2
               \<and> bitmap_of (current_bitmap g) g ! (x + y * width g) = FADE_LEVELS cfg - 1))"
    by (simp add: apply_life_rule_with_fade_eq [OF wf] lives_next_def cell_value_def)
  have a: "(0, 0) \<in> set (neighborhood 3 3 2 2)"
    by (simp add: neighborhood_def wrap_prev_def wrap_next_def)
  have b: "live_neighbors 7 3 3 (bitmap_of (current_bitmap corner_grid) corner_grid) 2 2 = 1"
    by (simp add: corner_grid_fields live_neighbors_def neighborhood_def wrap_prev_def
        wrap_next_def cell_value_def)
  have c: "count_neighbors B1 7 3 6 0 1 2 0 corner_grid = Inr 1"
    by (simp add: count_neighbors_def count_neighbor_def bitmap_load_def corner_grid_fields)
  from general a b c show ?thesis by (intro conjI)
qed

theorem next_generation_life_rule_witness:
  "valid_config source_config \<and> well_formed corner_grid
   \<and> values_in_range source_config corner_grid
   \<and> 2 < width corner_grid \<and> 2 < height corner_grid
   \<and> (\<exists>g'. apply_life_rule_with_fade source_config corner_grid = Inr g'
        \<and> bitmap_of B2 g' ! 8 \<noteq> 7)
   \<and> live_neighbors 7 3 3 [7, 0, 0, 0, 0, 0, 0, 0, 0] 2 2 = 1"
proof -
  have w: "2 < width corner_grid" and h: "2 < height corner_grid"
    by (simp_all add: corner_grid_fields)
  note inst = next_generation_life_rule
         [OF valid_source_config well_formed_corner_grid values_in_range_corner_grid w h]
  have n: "live_neighbors 7 3 3 [7, 0, 0, 0, 0, 0, 0, 0, 0] 2 2 = 1"
    using inst by (simp add: corner_grid_fields)
  have fl: "FADE_LEVELS source_config - 1 = 7"
    by (simp add: source_config_def)
  from inst obtain g' where
    "apply_life_rule_with_fade source_config corner_grid = Inr g'"
    "bitmap_of B2 g' ! 8 = 7 \<longleftrightarrow>
       live_neighbors 7 3 3 [7, 0, 0, 0, 0, 0, 0, 0, 0] 2 2 = 3
       \<or> (live_neighbors 7 3 3 [7, 0, 0, 0, 0, 0, 0, 0, 0] 2 2 = 2
          \<and> [7, 0, 0, 0, 0, 0, 0, 0, 0] ! 8 = (7::int))"
    unfolding fl corner_grid_fields by auto
  then have "\<exists>g'. apply_life_rule_with_fade source_config corner_grid = Inr g'
        \<and> bitmap_of B2 g' ! 8 \<noteq> 7"
    unfolding n by simp
  with n w h show ?thesis
    by (simp add: valid_source_config well_formed_corner_grid values_in_range_corner_grid)
qed

subsection \<open>Decay of a cell that does not live\<close>

text \<open>
  Claim C6. For every cell that is not alive in the next generation (its neighbour
  count is not 3, and it is not the case that the count is 2 and the cell is at the max
  fade level), the new fade value is \<open>max 0 (old fade value - FADE_DECAY_RATE)\<close>, the
  next buffer holds that new fade value, and the fade value has not increased and is
  not negative.
\<close>

theorem dying_cell_fades:
  assumes cfg: "valid_config cfg" and wf: "well_formed g" and rng: "values_in_range cfg g"
    and x: "x < width g" and y: "y < height g"
    and no3: "live_neighbors (FADE_LEVELS cfg - 1) (width g) (height g)
                (bitmap_of (current_bitmap g) g) x y \<noteq> 3"
    and no2: "\<not> (live_neighbors (FADE_LEVELS cfg - 1) (width g) (height g)
                (bitmap_of (current_bitmap g) g) x y = 2
               \<and> bitmap_of (current_bitmap g) g ! (x + y * width g) = FADE_LEVELS cfg - 1)"
  shows "\<exists>g'. apply_life_rule_with_fade cfg g = Inr g'
           \<and> fade_buffer g' ! (x + y * width g)
               = max 0 (fade_buffer g ! (x + y * width g) - FADE_DECAY_RATE cfg)
           \<and> bitmap_of (next_bitmap g) g' ! (x + y * width g) = fade_buffer g' ! (x + y * width g)
           \<and> fade_buffer g' ! (x + y * width g) \<le> fade_buffer g ! (x + y * width g)
           \<and> 0 \<le> fade_buffer g' ! (x + y * width g)"
proof -
  let ?k = "x + y * width g"
  let ?f = "fade_buffer g ! ?k"
  have k: "?k < length (fade_buffer g)"
    using wf x y by (simp add: well_formed_def cell_index_lt)
  have f0: "0 \<le> ?f" using fade_nth_in_range [OF rng k] by simp
  have rate: "0 \<le> FADE_DECAY_RATE cfg" using cfg by (simp add: valid_config_def)
  have dead: "\<not> lives_next (FADE_LEVELS cfg - 1) (width g) (height g)
                 (bitmap_of (current_bitmap g) g) x y"
    using no3 no2 by (simp add: lives_next_def cell_value_def)
  have new: "generation_of cfg g ! ?k = max 0 (?f - FADE_DECAY_RATE cfg)"
    using x y dead rate f0 by (simp add: generation_of_nth decayed_clamp)
  have le: "max 0 (?f - FADE_DECAY_RATE cfg) \<le> ?f" using f0 rate by simp
  show ?thesis
    using new le by (simp add: apply_life_rule_with_fade_eq [OF wf])
qed

theorem dying_cell_fades_witness:
  "valid_config source_config \<and> well_formed corner_grid
   \<and> values_in_range source_config corner_grid
   \<and> 0 < width corner_grid \<and> 0 < height corner_grid
   \<and> live_neighbors 7 3 3 [7, 0, 0, 0, 0, 0, 0, 0, 0] 0 0 = 0
   \<and> (\<exists>g'. apply_life_rule_with_fade source_config corner_grid = Inr g'
        \<and> fade_buffer g' ! 0 = 6 \<and> bitmap_of B2 g' ! 0 = 6)"
proof -
  have w: "0 < width corner_grid" and h: "0 < height corner_grid"
    by (simp_all add: corner_grid_fields)
  have fl: "FADE_LEVELS source_config - 1 = 7" "FADE_DECAY_RATE source_config = 1"
    by (simp_all add: source_config_def)
  have n: "live_neighbors 7 3 3 [7, 0, 0, 0, 0, 0, 0, 0, 0] 0 0 = 0"
    by (simp add: live_neighbors_def neighborhood_def wrap_prev_def wrap_next_def cell_value_def)
  have no3: "live_neighbors (FADE_LEVELS source_config - 1) (width corner_grid)
               (height corner_grid) (bitmap_of (current_bitmap corner_grid) corner_grid) 0 0 \<noteq> 3"
    unfolding fl corner_grid_fields n by simp
  have no2: "\<not> (live_neighbors (FADE_LEVELS source_config - 1) (width corner_grid)
               (height corner_grid) (bitmap_of (current_bitmap corner_grid) corner_grid) 0 0 = 2
             \<and> bitmap_of (current_bitmap corner_grid) corner_grid ! (0 + 0 * width corner_grid)
                 = FADE_LEVELS source_config - 1)"
    unfolding fl corner_grid_fields n by simp
  from dying_cell_fades
         [OF valid_source_config well_formed_corner_grid values_in_range_corner_grid w h no3 no2]
  have "\<exists>g'. apply_life_rule_with_fade source_config corner_grid = Inr g'
        \<and> fade_buffer g' ! 0 = 6 \<and> bitmap_of B2 g' ! 0 = 6"
    unfolding fl corner_grid_fields by auto
  with n w h show ?thesis
    by (simp add: valid_source_config well_formed_corner_grid values_in_range_corner_grid)
qed

subsection \<open>The generation step depends on the current and fade buffers only\<close>

lemma generation_result_cong:
  assumes "FADE_LEVELS cfg = FADE_LEVELS cfg'" "FADE_DECAY_RATE cfg = FADE_DECAY_RATE cfg'"
  shows "generation_result cfg w h buf fade = generation_result cfg' w h buf fade"
  using assms by (simp add: generation_result_def fade_next_def)

text \<open>
  Claim C10. Two runs of \<open>apply_life_rule_with_fade\<close> from states of the same
  dimensions with equal current-buffer contents and equal fade-buffer contents, under
  configurations with the same \<open>FADE_LEVELS\<close> and \<open>FADE_DECAY_RATE\<close>, both return, with
  equal next-buffer contents and equal fade buffers, whatever else differs (the old
  contents of the next buffer, which bitmap plays which role, counters, the random
  source). The step draws no random bits: the position in the random source is
  unchanged.
\<close>

theorem next_generation_deterministic:
  assumes wf: "well_formed g" and wf': "well_formed g'"
    and dims: "width g = width g'" "height g = height g'"
    and cur: "bitmap_of (current_bitmap g) g = bitmap_of (current_bitmap g') g'"
    and fade: "fade_buffer g = fade_buffer g'"
    and cfgs: "FADE_LEVELS cfg = FADE_LEVELS cfg'" "FADE_DECAY_RATE cfg = FADE_DECAY_RATE cfg'"
  shows "\<exists>r r'. apply_life_rule_with_fade cfg g = Inr r
           \<and> apply_life_rule_with_fade cfg' g' = Inr r'
           \<and> bitmap_of (next_bitmap g) r = bitmap_of (next_bitmap g') r'
           \<and> fade_buffer r = fade_buffer r'
           \<and> random_pos r = random_pos g \<and> random_bits r = random_bits g
           \<and> random_pos r' = random_pos g' \<and> random_bits r' = random_bits g'"
proof -
  have "generation_of cfg g = generation_of cfg' g'"
    unfolding generation_of_def dims cur fade using cfgs by (rule generation_result_cong)
  then show ?thesis
    by (simp add: apply_life_rule_with_fade_eq [OF wf] apply_life_rule_with_fade_eq [OF wf'])
qed


theorem next_generation_deterministic_witness:
  "well_formed corner_grid
   \<and> well_formed (corner_grid\<lparr>b1 := [3, 3, 3, 3, 3, 3, 3, 3, 3], b2 := [7, 0, 0, 0, 0, 0, 0, 0, 0],
        current_bitmap := B2, next_bitmap := B1, random_pos := 0, generation := 5\<rparr>)
   \<and> (\<exists>r r'. apply_life_rule_with_fade source_config corner_grid = Inr r
        \<and> apply_life_rule_with_fade (source_config\<lparr>STABLE_GENERATIONS := 99\<rparr>)
            (corner_grid\<lparr>b1 := [3, 3, 3, 3, 3, 3, 3, 3, 3], b2 := [7, 0, 0, 0, 0, 0, 0, 0, 0],
               current_bitmap := B2, next_bitmap := B1, random_pos := 0, generation := 5\<rparr>)
            = Inr r'
        \<and> bitmap_of B2 r = bitmap_of B1 r' \<and> fade_buffer r = fade_buffer r'
        \<and> random_pos r = 9 \<and> random_pos r' = 0)"
proof -
  let ?g' = "corner_grid\<lparr>b1 := [3, 3, 3, 3, 3, 3, 3, 3, 3], b2 := [7, 0, 0, 0, 0, 0, 0, 0, 0],
        current_bitmap := B2, next_bitmap := B1, random_pos := 0, generation := 5\<rparr>"
  let ?cfg' = "source_config\<lparr>STABLE_GENERATIONS := 99\<rparr>"
  have wf': "well_formed ?g'"
    by (simp add: well_formed_def corner_grid_def init_def)
  have a: "width corner_grid = width ?g'" "height corner_grid = height ?g'" by simp_all
  have b: "bitmap_of (current_bitmap corner_grid) corner_grid = bitmap_of (current_bitmap ?g') ?g'"
    by (simp add: corner_grid_def init_def bitmap_of_def)
  have c: "fade_buffer corner_grid = fade_buffer ?g'" by simp
  have d: "FADE_LEVELS source_config = FADE_LEVELS ?cfg'"
          "FADE_DECAY_RATE source_config = FADE_DECAY_RATE ?cfg'" by simp_all
  from next_generation_deterministic [OF well_formed_corner_grid wf' a b c d]
  obtain r r' where r: "apply_life_rule_with_fade source_config corner_grid = Inr r"
    and r': "apply_life_rule_with_fade ?cfg' ?g' = Inr r'"
    and nxt: "bitmap_of (next_bitmap corner_grid) r = bitmap_of (next_bitmap ?g') r'"
    and fade: "fade_buffer r = fade_buffer r'"
    and pos: "random_pos r = random_pos corner_grid" "random_pos r' = random_pos ?g'"
    by blast
  have "bitmap_of B2 r = bitmap_of B1 r'" using nxt by (simp add: corner_grid_fields)
  moreover have "random_pos r = 9" "random_pos r' = 0"
    using pos by (simp_all add: corner_grid_def)
  ultimately have "\<exists>r r'. apply_life_rule_with_fade source_config corner_grid = Inr r
        \<and> apply_life_rule_with_fade ?cfg' ?g' = Inr r'
        \<and> bitmap_of B2 r = bitmap_of B1 r' \<and> fade_buffer r = fade_buffer r'
        \<and> random_pos r = 9 \<and> random_pos r' = 0"
    using r r' fade by blast
  with wf' well_formed_corner_grid show ?thesis by blast
qed

subsection \<open>The loop of \<open>randomize\<close>\<close>

lemma put_pos_commute:
  "(put_bitmap b buf g)\<lparr>random_pos := p\<rparr> = put_bitmap b buf (g\<lparr>random_pos := p\<rparr>)"
  by (cases b) (simp_all add: put_bitmap_def)

lemma pos_fade_commute:
  "g\<lparr>random_pos := p, fade_buffer := f\<rparr> = (g::game)\<lparr>fade_buffer := f, random_pos := p\<rparr>"
  by simp

lemma spliced_whole: "length new = n \<Longrightarrow> length old = n \<Longrightarrow> spliced n new old = new"
  by (simp add: spliced_def)

lemma bitmap_of_pos_update [simp]: "bitmap_of b (g\<lparr>random_pos := p\<rparr>) = bitmap_of b g"
  by (cases b) (simp_all add: bitmap_of_def)

lemma length_random_cells [simp]: "length (random_cells cfg t g) = width g * height g"
  by (simp add: random_cells_def)

lemma random_cells_nth:
  "i < width g * height g \<Longrightarrow>
   random_cells cfg t g ! i =
     (if int (random_bits g (random_pos g + i) mod 32768) < t then FADE_LEVELS cfg - 1 else 0)"
  by (simp add: random_cells_def)

lemma randomize_step:
  assumes a: "a < width g * height g"
    and lc: "length (bitmap_of (current_bitmap g) g) = width g * height g"
    and lf: "length (fade_buffer g) = width g * height g"
  shows "randomize_loop cfg t (a # rest) (partial_random cfg t g a)
           = randomize_loop cfg t rest (partial_random cfg t g (Suc a))"
proof -
  define c new P v where "c = current_bitmap g" and "new = random_cells cfg t g"
    and "P = partial_random cfg t g a" and "v = new ! a"
  define ga where "ga = P\<lparr>random_pos := random_pos g + a + 1\<rparr>"
  have len_new: "length new = width g * height g" by (simp add: new_def)
  have P: "P = put_bitmap c (spliced a new (bitmap_of c g))
             (g\<lparr>fade_buffer := spliced a new (fade_buffer g), random_pos := random_pos g + a\<rparr>)"
    by (simp add: P_def partial_random_def c_def new_def)
  have draw: "getrandbits15 P
                = (int (random_bits g (random_pos g + a) mod 32768), ga)"
    by (simp add: getrandbits15_def P ga_def)
  have v: "v = (if int (random_bits g (random_pos g + a) mod 32768) < t
                then FADE_LEVELS cfg - 1 else 0)"
    using a by (simp add: v_def new_def random_cells_nth)
  have ga: "ga = put_bitmap c (spliced a new (bitmap_of c g))
             (g\<lparr>fade_buffer := spliced a new (fade_buffer g), random_pos := random_pos g + a + 1\<rparr>)"
    by (simp add: ga_def P put_pos_commute)
  have cur_ga: "current_bitmap ga = c" by (simp add: ga c_def)
  have step_c: "(spliced a new (bitmap_of c g))[a := v] = spliced (Suc a) new (bitmap_of c g)"
    unfolding v_def using a lc len_new by (intro spliced_step) (simp_all add: c_def)
  have step_f: "(spliced a new (fade_buffer g))[a := v] = spliced (Suc a) new (fade_buffer g)"
    unfolding v_def using a lf len_new by (intro spliced_step) simp_all
  have a_c: "a < length (spliced a new (bitmap_of c g))"
    using a lc len_new by (simp add: c_def)
  have a_f: "a < length (spliced a new (fade_buffer g))"
    using a lf len_new by simp
  have store: "and_then (bitmap_store c a v ga) (fade_store a v)
                 = Inr (partial_random cfg t g (Suc a))"
    using a_c a_f
    by (simp add: bitmap_store_put ga fade_store_eq step_c step_f put_fade_commute
        partial_random_def c_def [symmetric] new_def [symmetric] pos_fade_commute)
  have branch: "(if int (random_bits g (random_pos g + a) mod 32768) < t
           then and_then (bitmap_store c a (FADE_LEVELS cfg - 1) ga)
                  (fade_store a (FADE_LEVELS cfg - 1))
           else and_then (bitmap_store c a 0 ga) (fade_store a 0))
          = Inr (partial_random cfg t g (Suc a))"
    using store unfolding v by (cases "int (random_bits g (random_pos g + a) mod 32768) < t") simp_all
  show ?thesis
    unfolding P_def [symmetric] randomize_loop.simps draw prod.case cur_ga branch and_then_Inr
    by (rule refl)
qed

lemma randomize_loop_steps:
  assumes lc: "length (bitmap_of (current_bitmap g) g) = width g * height g"
    and lf: "length (fade_buffer g) = width g * height g"
  shows "a \<le> width g * height g \<Longrightarrow>
         randomize_loop cfg t [a..<width g * height g] (partial_random cfg t g a)
           = Inr (partial_random cfg t g (width g * height g))"
proof (induction "width g * height g - a" arbitrary: a)
  case 0
  then have "a = width g * height g" by simp
  then show ?case by simp
next
  case (Suc n)
  then have a: "a < width g * height g" by simp
  have list: "[a..<width g * height g] = a # [Suc a..<width g * height g]"
    using a by (rule upt_conv_Cons)
  have ih: "randomize_loop cfg t [Suc a..<width g * height g] (partial_random cfg t g (Suc a))
           = Inr (partial_random cfg t g (width g * height g))"
    using Suc.hyps(2) a by (intro Suc.hyps(1)) simp_all
  show ?case
    unfolding list randomize_step [OF a lc lf] by (rule ih)
qed

lemma partial_random_0: "partial_random cfg t g 0 = g"
  by (simp add: partial_random_def)

lemma randomize_eq:
  assumes lc: "length (bitmap_of (current_bitmap g) g) = width g * height g"
    and lf: "length (fade_buffer g) = width g * height g"
  shows "randomize cfg fraction g
           = Inr (put_bitmap (current_bitmap g) (random_cells cfg (py_int (fraction * 32767)) g)
                    (g\<lparr>fade_buffer := random_cells cfg (py_int (fraction * 32767)) g,
                       random_pos := random_pos g + width g * height g\<rparr>))"
proof -
  let ?t = "py_int (fraction * 32767)"
  have "randomize_loop cfg ?t [0..<width g * height g] (partial_random cfg ?t g 0)
           = Inr (partial_random cfg ?t g (width g * height g))"
    using lc lf by (rule randomize_loop_steps) simp
  moreover have "partial_random cfg ?t g (width g * height g)
      = put_bitmap (current_bitmap g) (random_cells cfg ?t g)
                    (g\<lparr>fade_buffer := random_cells cfg ?t g,
                       random_pos := random_pos g + width g * height g\<rparr>)"
  proof -
    have "spliced (width g * height g) (random_cells cfg ?t g)
            (bitmap_of (current_bitmap g) g) = random_cells cfg ?t g"
         "spliced (width g * height g) (random_cells cfg ?t g)
            (fade_buffer g) = random_cells cfg ?t g"
      using lc lf by (simp_all add: spliced_whole)
    then show ?thesis by (simp add: partial_random_def)
  qed
  ultimately show ?thesis
    by (simp add: randomize_def Let_def partial_random_0)
qed

subsection \<open>The loop of \<open>count_population\<close>\<close>

lemma count_population_loop_eq:
  assumes n: "n = length (bitmap_of (current_bitmap g) g)"
  shows "a \<le> n \<Longrightarrow>
         count_population_loop mf [a..<n] g c
           = Inr (c + int (length (filter (\<lambda>v. v = mf) (drop a (bitmap_of (current_bitmap g) g)))))"
proof (induction "n - a" arbitrary: a c)
  case 0
  then have "a = n" by simp
  then show ?case using n by simp
next
  case (Suc k)
  then have a: "a < n" by simp
  have list: "[a..<n] = a # [Suc a..<n]" using a by (rule upt_conv_Cons)
  have drop: "drop a (bitmap_of (current_bitmap g) g)
                = bitmap_of (current_bitmap g) g ! a # drop (Suc a) (bitmap_of (current_bitmap g) g)"
    using a n by (simp add: Cons_nth_drop_Suc)
  have load: "bitmap_load (current_bitmap g) a g = Inr (bitmap_of (current_bitmap g) g ! a)"
    using a n by (simp add: bitmap_load_def)
  have ih: "\<And>c. count_population_loop mf [Suc a..<n] g c
           = Inr (c + int (length (filter (\<lambda>v. v = mf) (drop (Suc a) (bitmap_of (current_bitmap g) g)))))"
    using Suc.hyps(2) a by (intro Suc.hyps(1)) simp_all
  show ?case
    unfolding list count_population_loop.simps load and_then_Inr ih
    by (subst drop) simp
qed

lemma count_population_eq:
  assumes "length (bitmap_of (current_bitmap g) g) = width g * height g"
  shows "count_population cfg g
           = Inr (int (length (filter (\<lambda>v. v = FADE_LEVELS cfg - 1) (bitmap_of (current_bitmap g) g))))"
  using count_population_loop_eq [of "width g * height g" g 0 "FADE_LEVELS cfg - 1" 0] assms
  by (simp add: count_population_def Let_def)

text \<open>
  Claim C9. \<open>count_population\<close> returns exactly the number of cells of the current
  buffer whose value is \<open>FADE_LEVELS - 1\<close>; on an all-zero buffer it returns 0 and on a
  buffer whose cells all equal \<open>FADE_LEVELS - 1\<close> it returns \<open>width * height\<close>.
\<close>

theorem count_population_counts_alive:
  assumes len: "length (bitmap_of (current_bitmap g) g) = width g * height g"
  shows "count_population cfg g
           = Inr (int (length (filter (\<lambda>v. v = FADE_LEVELS cfg - 1)
                                 (bitmap_of (current_bitmap g) g))))
         \<and> (FADE_LEVELS cfg \<noteq> 1
              \<and> bitmap_of (current_bitmap g) g = replicate (width g * height g) 0
            \<longrightarrow> count_population cfg g = Inr 0)
         \<and> (bitmap_of (current_bitmap g) g = replicate (width g * height g) (FADE_LEVELS cfg - 1)
            \<longrightarrow> count_population cfg g = Inr (int (width g * height g)))"
  by (simp add: count_population_eq [OF len])

lemma well_formed_init: "well_formed (init cfg w h bits)"
  by (simp add: well_formed_def init_def)

theorem count_population_counts_alive_witness:
  "length (bitmap_of (current_bitmap corner_grid) corner_grid)
     = width corner_grid * height corner_grid
   \<and> count_population source_config corner_grid = Inr 1
   \<and> count_population source_config (init source_config 3 3 (\<lambda>i. 0)) = Inr 0
   \<and> count_population source_config
        ((init source_config 3 3 (\<lambda>i. 0))\<lparr>b1 := replicate (3 * 3) 7\<rparr>) = Inr 9"
proof -
  let ?dead = "init source_config 3 3 (\<lambda>i. 0)"
  let ?full = "?dead\<lparr>b1 := replicate (3 * 3) 7\<rparr>"
  have l1: "length (bitmap_of (current_bitmap corner_grid) corner_grid)
              = width corner_grid * height corner_grid"
    by (simp add: corner_grid_fields)
  have l2: "length (bitmap_of (current_bitmap ?dead) ?dead) = width ?dead * height ?dead"
    by (simp add: init_def bitmap_of_def)
  have l3: "length (bitmap_of (current_bitmap ?full) ?full) = width ?full * height ?full"
    by (simp add: init_def bitmap_of_def)
  have "count_population source_config corner_grid = Inr 1"
    using count_population_counts_alive [OF l1, of source_config]
    by (simp add: corner_grid_fields source_config_def)
  moreover have "count_population source_config ?dead = Inr 0"
    using count_population_counts_alive [OF l2, of source_config]
    by (simp add: init_def bitmap_of_def source_config_def)
  moreover have "count_population source_config ?full = Inr 9"
    using count_population_counts_alive [OF l3, of source_config]
    by (simp add: init_def bitmap_of_def source_config_def)
  ultimately show ?thesis using l1 by simp
qed

subsection \<open>The range of the stored values\<close>

lemma values_in_range_iff:
  "values_in_range cfg g \<longleftrightarrow>
     in_range cfg (b1 g) \<and> in_range cfg (b2 g) \<and> in_range cfg (fade_buffer g)"
  by (auto simp: values_in_range_def in_range_def)

lemma values_in_range_put:
  assumes "in_range cfg buf" "in_range cfg fade" "values_in_range cfg g"
  shows "values_in_range cfg (put_bitmap b buf (g\<lparr>fade_buffer := fade, random_pos := p\<rparr>))"
  using assms by (cases b) (simp_all add: values_in_range_iff put_bitmap_def)

lemma well_formed_put:
  assumes "length buf = width g * height g" "length fade = width g * height g" "well_formed g"
  shows "well_formed (put_bitmap b buf (g\<lparr>fade_buffer := fade, random_pos := p\<rparr>))"
  using assms by (cases b) (simp_all add: well_formed_def put_bitmap_def)

lemma in_range_random_cells:
  assumes "valid_config cfg"
  shows "in_range cfg (random_cells cfg t g)"
  using assms by (auto simp: in_range_def random_cells_def valid_config_def)

lemma decayed_in_range:
  assumes "0 \<le> rate" "0 \<le> f" "f \<le> m"
  shows "0 \<le> decayed rate f \<and> decayed rate f \<le> m"
  using assms by (simp add: decayed_def)

lemma in_range_generation_of:
  assumes cfg: "valid_config cfg" and wf: "well_formed g" and rng: "values_in_range cfg g"
  shows "in_range cfg (generation_of cfg g)"
proof -
  have "0 \<le> fade_next cfg (width g) (height g) (bitmap_of (current_bitmap g) g) (fade_buffer g) i
        \<and> fade_next cfg (width g) (height g) (bitmap_of (current_bitmap g) g) (fade_buffer g) i
            \<le> FADE_LEVELS cfg - 1"
    if i: "i < width g * height g" for i
  proof -
    have "i < length (fade_buffer g)" using wf i by (simp add: well_formed_def)
    from fade_nth_in_range [OF rng this]
    have "0 \<le> decayed (FADE_DECAY_RATE cfg) (fade_buffer g ! i)
          \<and> decayed (FADE_DECAY_RATE cfg) (fade_buffer g ! i) \<le> FADE_LEVELS cfg - 1"
      using cfg by (intro decayed_in_range) (simp_all add: valid_config_def)
    then show ?thesis using cfg by (simp add: fade_next_def valid_config_def)
  qed
  then show ?thesis
    by (auto simp: in_range_def generation_of_def generation_result_def)
qed

lemma length_generation_of [simp]: "length (generation_of cfg g) = width g * height g"
  by (simp add: generation_of_def)

lemma randomize_keeps_invariant:
  assumes cfg: "valid_config cfg" and wf: "well_formed g" and rng: "values_in_range cfg g"
  shows "\<exists>g'. randomize cfg fraction g = Inr g' \<and> well_formed g' \<and> values_in_range cfg g'"
proof -
  have lc: "length (bitmap_of (current_bitmap g) g) = width g * height g"
    using wf by (rule length_bitmap_of)
  have lf: "length (fade_buffer g) = width g * height g"
    using wf by (simp add: well_formed_def)
  show ?thesis
    unfolding randomize_eq [OF lc lf]
    using wf rng in_range_random_cells [OF cfg]
    by (simp add: well_formed_put values_in_range_put)
qed

lemma apply_life_rule_keeps_invariant:
  assumes cfg: "valid_config cfg" and wf: "well_formed g" and rng: "values_in_range cfg g"
  shows "\<exists>g'. apply_life_rule_with_fade cfg g = Inr g' \<and> well_formed g' \<and> values_in_range cfg g'
           \<and> width g' = width g \<and> height g' = height g"
proof -
  have r: "in_range cfg (generation_of cfg g)" using cfg wf rng by (rule in_range_generation_of)
  have "well_formed (put_bitmap (next_bitmap g) (generation_of cfg g)
          (g\<lparr>fade_buffer := generation_of cfg g, random_pos := random_pos g\<rparr>))"
    using wf by (intro well_formed_put) simp_all
  moreover have "values_in_range cfg (put_bitmap (next_bitmap g) (generation_of cfg g)
          (g\<lparr>fade_buffer := generation_of cfg g, random_pos := random_pos g\<rparr>))"
    using r rng by (intro values_in_range_put)
  ultimately show ?thesis
    unfolding apply_life_rule_with_fade_eq [OF wf] by simp
qed

lemma swap_keeps_invariant:
  assumes "well_formed g" "values_in_range cfg g"
  shows "well_formed (g\<lparr>current_bitmap := next_bitmap g, next_bitmap := current_bitmap g,
                         root_group := r\<rparr>)
         \<and> values_in_range cfg (g\<lparr>current_bitmap := next_bitmap g, next_bitmap := current_bitmap g,
                         root_group := r\<rparr>)"
  using assms by (auto simp: well_formed_def values_in_range_def)

lemma run_iteration_keeps_invariant:
  assumes cfg: "valid_config cfg" and wf: "well_formed g" and rng: "values_in_range cfg g"
  shows "\<exists>g'. run_iteration cfg g = Inr g' \<and> well_formed g' \<and> values_in_range cfg g'"
proof -
  from apply_life_rule_keeps_invariant [OF cfg wf rng]
  obtain ga where ga: "apply_life_rule_with_fade cfg g = Inr ga"
    and inv: "well_formed ga" "values_in_range cfg ga" by blast
  show ?thesis
    unfolding run_iteration_def ga and_then_Inr Let_def
    using swap_keeps_invariant [OF inv] by simp
qed

lemma run_loop_keeps_invariant:
  assumes cfg: "valid_config cfg"
  shows "well_formed g \<Longrightarrow> values_in_range cfg g \<Longrightarrow>
         \<exists>g'. run_loop n cfg g = Inr g' \<and> well_formed g' \<and> values_in_range cfg g'"
proof (induction n arbitrary: g)
  case 0
  then show ?case by simp
next
  case (Suc n)
  from run_iteration_keeps_invariant [OF cfg Suc.prems]
  obtain ga where ga: "run_iteration cfg g = Inr ga"
    and inv: "well_formed ga" "values_in_range cfg ga" by blast
  from Suc.IH [OF inv] show ?case by (simp add: ga)
qed

lemma values_in_range_init:
  assumes "valid_config cfg"
  shows "values_in_range cfg (init cfg w h bits)"
  using assms by (simp add: values_in_range_def init_def valid_config_def)

lemma run_keeps_invariant:
  assumes cfg: "valid_config cfg"
  shows "\<exists>g'. run n cfg (init cfg w h bits) = Inr g' \<and> well_formed g' \<and> values_in_range cfg g'"
proof -
  have "well_formed ((init cfg w h bits)\<lparr>auto_refresh := True\<rparr>)"
       "values_in_range cfg ((init cfg w h bits)\<lparr>auto_refresh := True\<rparr>)"
    using cfg by (simp_all add: well_formed_def values_in_range_def init_def valid_config_def)
  from randomize_keeps_invariant [OF cfg this]
  obtain ga where ga: "randomize cfg (33 / 100) ((init cfg w h bits)\<lparr>auto_refresh := True\<rparr>) = Inr ga"
    and inv: "well_formed ga" "values_in_range cfg ga" by blast
  from run_loop_keeps_invariant [OF cfg inv] show ?thesis
    by (simp add: run_def ga)
qed

text \<open>
  Claim C7. Every value stored in the two bitmaps and in the fade buffer lies in
  \<open>[0, FADE_LEVELS - 1]\<close> (\<open>values_in_range\<close>): the buffers start so in \<open>__init__\<close>, and
  \<open>randomize\<close> and \<open>apply_life_rule_with_fade\<close>, the operations that write them, return
  and keep it, so it holds after any number of iterations of \<open>run\<close>. A cell is alive
  when its value equals \<open>FADE_LEVELS - 1\<close>: that is the test of the life rule
  (\<open>cell_alive\<close> in \<open>cell_body\<close>) and what \<open>count_population\<close> counts.
\<close>

theorem values_stay_in_range:
  assumes cfg: "valid_config cfg" and wf: "well_formed g" and rng: "values_in_range cfg g"
  shows "(\<exists>g'. randomize cfg fraction g = Inr g' \<and> well_formed g' \<and> values_in_range cfg g')
       \<and> (\<exists>g'. apply_life_rule_with_fade cfg g = Inr g' \<and> well_formed g' \<and> values_in_range cfg g')
       \<and> well_formed (init cfg w h bits) \<and> values_in_range cfg (init cfg w h bits)
       \<and> (\<exists>g'. run n cfg (init cfg w h bits) = Inr g' \<and> well_formed g' \<and> values_in_range cfg g')
       \<and> count_population cfg g
           = Inr (int (length (filter (\<lambda>v. v = FADE_LEVELS cfg - 1)
                                 (bitmap_of (current_bitmap g) g))))"
proof -
  have a: "\<exists>g'. apply_life_rule_with_fade cfg g = Inr g' \<and> well_formed g' \<and> values_in_range cfg g'"
    using apply_life_rule_keeps_invariant [OF cfg wf rng] by blast
  have c: "count_population cfg g
           = Inr (int (length (filter (\<lambda>v. v = FADE_LEVELS cfg - 1)
                                 (bitmap_of (current_bitmap g) g))))"
    using wf by (intro count_population_eq length_bitmap_of)
  show ?thesis
    using randomize_keeps_invariant [OF cfg wf rng] a well_formed_init
      values_in_range_init [OF cfg] run_keeps_invariant [OF cfg] c
    by (intro conjI)
qed

theorem values_stay_in_range_witness:
  "valid_config source_config \<and> well_formed corner_grid
   \<and> values_in_range source_config corner_grid
   \<and> (\<exists>g'. randomize source_config (1 / 2) corner_grid = Inr g'
         \<and> well_formed g' \<and> values_in_range source_config g')
   \<and> (\<exists>g'. apply_life_rule_with_fade source_config corner_grid = Inr g'
         \<and> well_formed g' \<and> values_in_range source_config g')
   \<and> (\<exists>g'. run 5 source_config (init source_config 64 64 (\<lambda>i. 7 * i)) = Inr g'
         \<and> well_formed g' \<and> values_in_range source_config g')"
  using values_stay_in_range
          [OF valid_source_config well_formed_corner_grid values_in_range_corner_grid,
           of "1 / 2" 64 64 "\<lambda>i. 7 * i" 5]
    valid_source_config well_formed_corner_grid values_in_range_corner_grid
  by blast

subsection \<open>The shift of the history\<close>

lemma rev_upt_Suc: "rev [Suc 0..<Suc (Suc m)] = Suc m # rev [Suc 0..<Suc m]"
  by simp

lemma shift_history_eq:
  "m < length hist \<Longrightarrow>
   shift_history (rev [Suc 0..<Suc m]) hist = Inr (hist ! 0 # take m hist @ drop (Suc m) hist)"
proof (induction m arbitrary: hist)
  case 0
  then show ?case by (cases hist) simp_all
next
  case (Suc m)
  let ?h = "hist[Suc m := hist ! m]"
  have get: "list_get hist (Suc m - 1) = Inr (hist ! m)"
    using Suc.prems by (simp add: list_get_def)
  have set: "list_set hist (Suc m) (hist ! m) = Inr ?h"
    using Suc.prems by (simp add: list_set_def)
  have m: "m < length ?h" using Suc.prems by simp
  have "shift_history (rev [Suc 0..<Suc (Suc m)]) hist = shift_history (rev [Suc 0..<Suc m]) ?h"
    unfolding rev_upt_Suc shift_history.simps get set and_then_Inr by (rule refl)
  also have "\<dots> = Inr (?h ! 0 # take m ?h @ drop (Suc m) ?h)"
    using m by (rule Suc.IH)
  also have "?h ! 0 = hist ! 0" by simp
  also have "take m ?h = take m hist" by simp
  also have "drop (Suc m) ?h = hist ! m # drop (Suc (Suc m)) hist"
    using Suc.prems by (simp add: drop_update_swap Cons_nth_drop_Suc [symmetric]) 
  also have "take m hist @ hist ! m # drop (Suc (Suc m)) hist
               = take (Suc m) hist @ drop (Suc (Suc m)) hist"
    using Suc.prems by (simp add: take_Suc_conv_app_nth)
  finally show ?case .
qed

lemma push_history:
  assumes "length hist = n" "0 < n"
  shows "and_then (shift_history (rev [1..<n]) hist) (\<lambda>shifted. list_set shifted 0 pop)
           = Inr (pop # butlast hist)"
proof -
  obtain m where n: "n = Suc m" using assms(2) by (cases n) simp_all
  have m: "m < length hist" using assms(1) n by simp
  have "take m hist = butlast hist" using assms(1) n by (simp add: butlast_conv_take)
  then show ?thesis
    using shift_history_eq [OF m] assms(1) n by (simp add: list_set_def)
qed

subsection \<open>\<open>check_stability\<close>\<close>

lemma stability_checks_eq:
  assumes "2 \<le> length window" "3 \<le> HISTORY_SIZE cfg \<Longrightarrow> 3 \<le> length window"
  shows "stability_checks cfg window = Inr (is_stable (HISTORY_SIZE cfg) window)"
proof -
  have pos: "0 < length window" "1 < length window" using assms(1) by linarith+
  then have ne: "window \<noteq> []" by simp
  have g0: "list_get window 0 = Inr (window ! 0)" and g1: "list_get window 1 = Inr (window ! 1)"
    using pos ne by (simp_all add: list_get_def)
  show ?thesis
  proof (cases "3 \<le> HISTORY_SIZE cfg")
    case True
    then have g2: "list_get window 2 = Inr (window ! 2)"
      using assms(2) by (simp add: list_get_def)
    show ?thesis
      unfolding stability_checks_def g0 g1 g2 and_then_Inr Let_def
      using True ne by (auto simp: is_stable_def)
  next
    case False
    then show ?thesis
      unfolding stability_checks_def g0 g1 and_then_Inr Let_def
      by (auto simp: is_stable_def)
  qed
qed

lemma check_stability_eq:
  assumes len: "length (population_history g) = HISTORY_SIZE cfg" and hs: "2 \<le> HISTORY_SIZE cfg"
  shows "check_stability cfg pop g
           = Inr (is_stable (HISTORY_SIZE cfg) (pop # butlast (population_history g)),
                  g\<lparr>population_history := pop # butlast (population_history g)\<rparr>)"
proof -
  let ?w = "pop # butlast (population_history g)"
  have push: "and_then (shift_history (rev [1..<HISTORY_SIZE cfg]) (population_history g))
                (\<lambda>shifted. list_set shifted 0 pop) = Inr ?w"
    using len hs by (intro push_history) simp_all
  have lw: "length ?w = HISTORY_SIZE cfg" using len hs by simp
  have checks: "stability_checks cfg ?w = Inr (is_stable (HISTORY_SIZE cfg) ?w)"
    using lw hs by (intro stability_checks_eq) simp_all
  have "check_stability cfg pop g
          = and_then (and_then (shift_history (rev [1..<HISTORY_SIZE cfg]) (population_history g))
                (\<lambda>shifted. list_set shifted 0 pop))
              (\<lambda>hist. and_then (stability_checks cfg hist)
                 (\<lambda>stable. Inr (stable, g\<lparr>population_history := hist\<rparr>)))"
    by (simp add: check_stability_def and_then_def split: sum.splits)
  then show ?thesis
    unfolding push and_then_Inr checks by simp
qed

lemma check_stability_too_short:
  assumes len: "length (population_history g) = HISTORY_SIZE cfg" and hs: "HISTORY_SIZE cfg = 1"
  shows "check_stability cfg pop g = Inl IndexError"
proof -
  have push: "and_then (shift_history (rev [1..<HISTORY_SIZE cfg]) (population_history g))
                (\<lambda>shifted. list_set shifted 0 pop) = Inr (pop # butlast (population_history g))"
    using len hs by (intro push_history) simp_all
  have "butlast (population_history g) = []"
    using len hs by (cases "population_history g") simp_all
  then have w: "pop # butlast (population_history g) = [pop]" by simp
  have checks: "stability_checks cfg [pop] = Inl IndexError"
    by (simp add: stability_checks_def list_get_def)
  have "check_stability cfg pop g
          = and_then (and_then (shift_history (rev [1..<HISTORY_SIZE cfg]) (population_history g))
                (\<lambda>shifted. list_set shifted 0 pop))
              (\<lambda>hist. and_then (stability_checks cfg hist)
                 (\<lambda>stable. Inr (stable, g\<lparr>population_history := hist\<rparr>)))"
    by (simp add: check_stability_def and_then_def split: sum.splits)
  then show ?thesis
    unfolding push and_then_Inr w checks by simp
qed

subsection \<open>\<open>handle_stable_state\<close>\<close>

lemma handle_stable_state_start:
  assumes ok: "tracking_ok cfg g"
  shows "handle_stable_state cfg g =
     and_then
          (if is_stable (HISTORY_SIZE cfg) (pushed_history cfg g)
           then (let gb = g\<lparr>population_history := pushed_history cfg g,
                             stable_count := stable_count g + 1\<rparr> in
                 if stable_count gb \<ge> STABLE_GENERATIONS cfg
                 then and_then
                        (randomize cfg (33 / 100)
                           (gb\<lparr>console := console gb @ [Print_reset (generation gb)]\<rparr>))
                        (\<lambda>gc. Inr (gc\<lparr>population_history := replicate (HISTORY_SIZE cfg) 0,
                                      stable_count := 0,
                                      generation := 0,
                                      console := console gc @ [Sleep_half_second]\<rparr>))
                 else Inr gb)
           else Inr (g\<lparr>population_history := pushed_history cfg g, stable_count := 0\<rparr>))
          (\<lambda>gd. Inr (gd\<lparr>generation := generation gd + 1\<rparr>))"
proof -
  have pop: "count_population cfg g = Inr (population cfg g)"
    using ok by (simp add: tracking_ok_def count_population_eq population_def)
  have chk: "check_stability cfg (population cfg g) g
               = Inr (is_stable (HISTORY_SIZE cfg) (pushed_history cfg g),
                      g\<lparr>population_history := pushed_history cfg g\<rparr>)"
    using ok by (simp add: tracking_ok_def check_stability_eq pushed_history_def)
  show ?thesis
    using ok unfolding handle_stable_state_def pop chk and_then_Inr prod.case
    by (simp add: tracking_ok_def)
qed

lemma handle_stable_state_unstable:
  assumes ok: "tracking_ok cfg g"
    and unstable: "\<not> is_stable (HISTORY_SIZE cfg) (pushed_history cfg g)"
  shows "handle_stable_state cfg g
           = Inr (g\<lparr>population_history := pushed_history cfg g, stable_count := 0,
                     generation := generation g + 1\<rparr>)"
  unfolding handle_stable_state_start [OF ok] using unstable by simp

lemma handle_stable_state_stable:
  assumes ok: "tracking_ok cfg g"
    and stable: "is_stable (HISTORY_SIZE cfg) (pushed_history cfg g)"
    and below: "stable_count g + 1 < STABLE_GENERATIONS cfg"
  shows "handle_stable_state cfg g
           = Inr (g\<lparr>population_history := pushed_history cfg g,
                     stable_count := stable_count g + 1,
                     generation := generation g + 1\<rparr>)"
  unfolding handle_stable_state_start [OF ok] using stable below by (simp add: Let_def)

lemma py_int_third: "py_int (33 / 100 * 32767) = 10813"
  by (simp add: py_int_def floor_eq_iff)

lemma handle_stable_state_reseed:
  assumes ok: "tracking_ok cfg g"
    and stable: "is_stable (HISTORY_SIZE cfg) (pushed_history cfg g)"
    and reached: "STABLE_GENERATIONS cfg \<le> stable_count g + 1"
  shows "handle_stable_state cfg g
           = Inr (put_bitmap (current_bitmap g) (random_cells cfg 10813 g)
                   (g\<lparr>fade_buffer := random_cells cfg 10813 g,
                      random_pos := random_pos g + width g * height g,
                      population_history := replicate (HISTORY_SIZE cfg) 0,
                      stable_count := 0,
                      generation := 1,
                      console := console g @ [Print_reset (generation g), Sleep_half_second]\<rparr>))"
proof -
  define gb where "gb = g\<lparr>population_history := pushed_history cfg g,
                           stable_count := stable_count g + 1,
                           console := console g @ [Print_reset (generation g)]\<rparr>"
  have lc: "length (bitmap_of (current_bitmap gb) gb) = width gb * height gb"
    and lf: "length (fade_buffer gb) = width gb * height gb"
    using ok by (cases "current_bitmap g"; simp add: tracking_ok_def gb_def bitmap_of_def)+
  have cells: "random_cells cfg 10813 gb = random_cells cfg 10813 g"
    by (simp add: random_cells_def gb_def)
  have r: "randomize cfg (33 / 100) gb
             = Inr (put_bitmap (current_bitmap g) (random_cells cfg 10813 g)
                      (gb\<lparr>fade_buffer := random_cells cfg 10813 g,
                          random_pos := random_pos g + width g * height g\<rparr>))"
    unfolding randomize_eq [OF lc lf] py_int_third cells by (simp add: gb_def)
  have "handle_stable_state cfg g
          = and_then (and_then (randomize cfg (33 / 100) gb)
                        (\<lambda>gc. Inr (gc\<lparr>population_history := replicate (HISTORY_SIZE cfg) 0,
                                      stable_count := 0,
                                      generation := 0,
                                      console := console gc @ [Sleep_half_second]\<rparr>)))
              (\<lambda>gd. Inr (gd\<lparr>generation := generation gd + 1\<rparr>))"
    unfolding handle_stable_state_start [OF ok] using stable reached
    by (simp add: Let_def gb_def)
  also have "\<dots> = Inr (put_bitmap (current_bitmap g) (random_cells cfg 10813 g)
                   (g\<lparr>fade_buffer := random_cells cfg 10813 g,
                      random_pos := random_pos g + width g * height g,
                      population_history := replicate (HISTORY_SIZE cfg) 0,
                      stable_count := 0,
                      generation := 1,
                      console := console g @ [Print_reset (generation g), Sleep_half_second]\<rparr>))"
    unfolding r and_then_Inr
    by (cases "current_bitmap g") (simp_all add: put_bitmap_def gb_def)
  finally show ?thesis .
qed

subsection \<open>An all-dead 2 by 2 grid\<close>

lemma replicate_4: "replicate 4 (0::int) = [0, 0, 0, 0]"
  by code_simp

lemma replicate_3: "replicate 3 (0::int) = [0, 0, 0]"
  by code_simp

lemma upt_4: "[0..<4] = [0, 1, 2, 3]"
  by code_simp

lemma dead_grid_fields:
  "width dead_grid = 2" "height dead_grid = 2"
  "current_bitmap dead_grid = B1" "next_bitmap dead_grid = B2"
  "b1 dead_grid = [0, 0, 0, 0]" "b2 dead_grid = [0, 0, 0, 0]"
  "fade_buffer dead_grid = [0, 0, 0, 0]"
  "population_history dead_grid = [0, 0, 0]"
  "stable_count dead_grid = 0" "generation dead_grid = 0" "console dead_grid = []"
  "random_pos dead_grid = 4" "random_bits dead_grid = (\<lambda>i. 32767)"
  "root_group dead_grid = G1"
  by (simp_all add: dead_grid_def init_def source_config_def replicate_4 replicate_3)

lemma dead_grid_start:
  "run 0 source_config (init source_config 2 2 (\<lambda>i. 32767)) = Inr dead_grid"
proof -
  let ?g = "(init source_config 2 2 (\<lambda>i. 32767))\<lparr>auto_refresh := True\<rparr>"
  have lc: "length (bitmap_of (current_bitmap ?g) ?g) = width ?g * height ?g"
    and lf: "length (fade_buffer ?g) = width ?g * height ?g"
    by (simp_all add: init_def bitmap_of_def)
  have cells: "random_cells source_config 10813 ?g = [0, 0, 0, 0]"
    by (simp add: random_cells_def init_def upt_4)
  show ?thesis
    unfolding run_def randomize_eq [OF lc lf] py_int_third cells
    by (simp add: init_def put_bitmap_def dead_grid_def replicate_4)
qed

lemma and_then_assoc: "and_then (and_then m f) k = and_then m (\<lambda>x. and_then (f x) k)"
  by (cases m) simp_all

lemma repeatedly_snoc: "repeatedly (Suc n) f g = and_then (repeatedly n f g) f"
proof (induction n arbitrary: g)
  case 0
  show ?case by (cases "f g") simp_all
next
  case (Suc n)
  have ih: "repeatedly (Suc n) f = (\<lambda>x. and_then (repeatedly n f x) f)"
    by (rule ext) (rule Suc.IH)
  have "repeatedly (Suc (Suc n)) f g = and_then (f g) (repeatedly (Suc n) f)"
    by (rule repeatedly.simps)
  also have "\<dots> = and_then (f g) (\<lambda>x. and_then (repeatedly n f x) f)"
    by (simp only: ih)
  also have "\<dots> = and_then (and_then (f g) (repeatedly n f)) f"
    by (simp only: and_then_assoc)
  also have "\<dots> = and_then (repeatedly (Suc n) f g) f"
    by (simp only: repeatedly.simps)
  finally show ?case .
qed

lemma tracking_ok_dead:
  "tracking_ok source_config (dead_grid\<lparr>stable_count := c, generation := n\<rparr>)"
  by (simp add: tracking_ok_def dead_grid_fields bitmap_of_def) (simp add: source_config_def)

lemma pushed_history_dead:
  "pushed_history source_config (dead_grid\<lparr>stable_count := c, generation := n\<rparr>) = [0, 0, 0]"
  by (simp add: pushed_history_def population_def dead_grid_fields bitmap_of_def source_config_def)

lemma is_stable_zeros: "is_stable n [0, 0, 0]"
  by (simp add: is_stable_def)

lemma history_size_source: "HISTORY_SIZE source_config = 3" "STABLE_GENERATIONS source_config = 10"
  by (simp_all add: source_config_def)

lemma handle_dead_below:
  assumes "k < 9"
  shows "handle_stable_state source_config
           (dead_grid\<lparr>stable_count := int k, generation := int k\<rparr>)
         = Inr (dead_grid\<lparr>stable_count := int (Suc k), generation := int (Suc k)\<rparr>)"
proof -
  let ?g = "dead_grid\<lparr>stable_count := int k, generation := int k\<rparr>"
  have st: "is_stable (HISTORY_SIZE source_config) (pushed_history source_config ?g)"
    unfolding pushed_history_dead by (rule is_stable_zeros)
  have below: "stable_count ?g + 1 < STABLE_GENERATIONS source_config"
    using assms by (simp add: history_size_source)
  show ?thesis
    unfolding handle_stable_state_stable [OF tracking_ok_dead st below] pushed_history_dead
    by (simp add: dead_grid_def init_def source_config_def replicate_3 add.commute)
qed

lemma repeatedly_dead:
  "k + n \<le> 9 \<Longrightarrow>
   repeatedly n (handle_stable_state source_config)
     (dead_grid\<lparr>stable_count := int k, generation := int k\<rparr>)
   = Inr (dead_grid\<lparr>stable_count := int (k + n), generation := int (k + n)\<rparr>)"
proof (induction n arbitrary: k)
  case 0
  show ?case by simp
next
  case (Suc n)
  then have k: "k < 9" and rest: "Suc k + n \<le> 9" by simp_all
  show ?case
    unfolding repeatedly.simps handle_dead_below [OF k] and_then_Inr Suc.IH [OF rest]
    by simp
qed

lemma handle_dead_reseed:
  "handle_stable_state source_config (dead_grid\<lparr>stable_count := 9, generation := 9\<rparr>)
     = Inr (dead_grid\<lparr>random_pos := 8, generation := 1,
                       console := [Print_reset 9, Sleep_half_second]\<rparr>)"
proof -
  let ?g = "dead_grid\<lparr>stable_count := 9, generation := 9\<rparr>"
  have st: "is_stable (HISTORY_SIZE source_config) (pushed_history source_config ?g)"
    unfolding pushed_history_dead by (rule is_stable_zeros)
  have reached: "STABLE_GENERATIONS source_config \<le> stable_count ?g + 1"
    by (simp add: history_size_source)
  have cells: "random_cells source_config 10813 ?g = [0, 0, 0, 0]"
    by (simp add: random_cells_def dead_grid_fields upt_4)
  show ?thesis
    unfolding handle_stable_state_reseed [OF tracking_ok_dead st reached] cells
    by (simp add: dead_grid_def init_def source_config_def replicate_3 replicate_4 put_bitmap_def)
qed

text \<open>
  Claim C3. With \<open>STABLE_GENERATIONS = 10\<close>, ten consecutive stable generations since
  the last reset reseed exactly once, at the tenth; after that call \<open>stable_count\<close> is 0
  and the history is all zero, and a generation that is not stable resets
  \<open>stable_count\<close> to 0 (\<open>handle_stable_state_unstable\<close>, \<open>handle_stable_state_stable\<close>,
  \<open>handle_stable_state_reseed\<close>). The counter \<open>generation\<close> is not 0 after the reseeding
  call: the reset branch assigns 0 and the last statement of \<open>handle_stable_state\<close>,
  \<open>self.generation += 1\<close>, then runs unconditionally. The theorem evaluates ten calls on
  the all-dead 2 by 2 grid: nine calls raise \<open>stable_count\<close> to 9 and print nothing; the
  tenth prints the reset message once (for generation 9), draws four more random
  numbers, and ends with \<open>stable_count = 0\<close>, history \<open>[0,0,0]\<close> and \<open>generation = 1\<close>.
\<close>

theorem reseed_leaves_generation_1:
  "repeatedly 9 (handle_stable_state source_config) dead_grid
     = Inr (dead_grid\<lparr>stable_count := 9, generation := 9\<rparr>)
   \<and> repeatedly 10 (handle_stable_state source_config) dead_grid
     = Inr (dead_grid\<lparr>random_pos := 8, generation := 1,
                       console := [Print_reset 9, Sleep_half_second]\<rparr>)
   \<and> stable_count dead_grid = 0 \<and> population_history dead_grid = [0, 0, 0]
   \<and> console dead_grid = []"
proof -
  have start: "dead_grid = dead_grid\<lparr>stable_count := int 0, generation := int 0\<rparr>"
    by (simp add: dead_grid_def init_def)
  have nine: "repeatedly 9 (handle_stable_state source_config) dead_grid
     = Inr (dead_grid\<lparr>stable_count := 9, generation := 9\<rparr>)"
    using repeatedly_dead [of 0 9] start by simp
  have "repeatedly 10 (handle_stable_state source_config) dead_grid
          = and_then (repeatedly 9 (handle_stable_state source_config) dead_grid)
              (handle_stable_state source_config)"
    using repeatedly_snoc [of 9 "handle_stable_state source_config" dead_grid] by simp
  then have ten: "repeatedly 10 (handle_stable_state source_config) dead_grid
     = Inr (dead_grid\<lparr>random_pos := 8, generation := 1,
                       console := [Print_reset 9, Sleep_half_second]\<rparr>)"
    unfolding nine and_then_Inr handle_dead_reseed .
  show ?thesis using nine ten by (simp add: dead_grid_fields)
qed

subsection \<open>One iteration of \<open>run\<close>\<close>

lemma run_iteration_eq:
  assumes wf: "well_formed g"
  shows "run_iteration cfg g
           = Inr (put_bitmap (next_bitmap g) (generation_of cfg g)
                   (g\<lparr>fade_buffer := generation_of cfg g,
                      current_bitmap := next_bitmap g,
                      next_bitmap := current_bitmap g,
                      root_group := (if root_group g = G1 then G2 else G1)\<rparr>))"
  unfolding run_iteration_def apply_life_rule_with_fade_eq [OF wf] and_then_Inr Let_def
  by (cases "next_bitmap g") (simp_all add: put_bitmap_def)

lemma run_iteration_tracking_untouched:
  assumes wf: "well_formed g"
  shows "\<exists>g'. run_iteration cfg g = Inr g'
           \<and> generation g' = generation g \<and> stable_count g' = stable_count g
           \<and> population_history g' = population_history g \<and> console g' = console g
           \<and> random_pos g' = random_pos g"
  unfolding run_iteration_eq [OF wf]
  by (cases "next_bitmap g") (simp_all add: put_bitmap_def)

lemma run_iteration_swaps_roles:
  assumes wf: "well_formed g"
  shows "\<exists>g'. run_iteration cfg g = Inr g'
           \<and> current_bitmap g' = next_bitmap g \<and> next_bitmap g' = current_bitmap g
           \<and> bitmap_of (next_bitmap g') g' = bitmap_of (current_bitmap g) g
           \<and> bitmap_of (current_bitmap g') g' = generation_of cfg g
           \<and> root_group g' \<noteq> root_group g"
proof -
  have "current_bitmap g \<noteq> next_bitmap g" using wf by (simp add: well_formed_def)
  then show ?thesis
    unfolding run_iteration_eq [OF wf]
    by (cases "next_bitmap g"; cases "current_bitmap g"; cases "root_group g")
       (simp_all add: put_bitmap_def bitmap_of_def)
qed

lemma well_formed_dead_grid: "well_formed dead_grid"
  by (simp add: well_formed_def dead_grid_def init_def)

lemma generation_of_dead:
  "generation_of source_config (dead_grid\<lparr>current_bitmap := c, next_bitmap := n, root_group := r\<rparr>)
     = [0, 0, 0, 0]"
  by (cases c)
     (simp_all add: generation_of_def generation_result_def fade_next_def lives_next_def
        live_neighbors_def neighborhood_def cell_value_def wrap_prev_def wrap_next_def
        decayed_def dead_grid_fields bitmap_of_def upt_4 source_config_def)

lemma run_iteration_dead_1:
  "run_iteration source_config dead_grid
     = Inr (dead_grid\<lparr>current_bitmap := B2, next_bitmap := B1, root_group := G2\<rparr>)"
proof -
  have g: "generation_of source_config dead_grid = [0, 0, 0, 0]"
    using generation_of_dead [where c = B1 and n = B2 and r = G1] by (simp add: dead_grid_def init_def)
  show ?thesis
    unfolding run_iteration_eq [OF well_formed_dead_grid] g
    by (simp add: dead_grid_def init_def put_bitmap_def replicate_4)
qed

lemma run_iteration_dead_2:
  "run_iteration source_config
     (dead_grid\<lparr>current_bitmap := B2, next_bitmap := B1, root_group := G2\<rparr>)
     = Inr dead_grid"
proof -
  have wf: "well_formed (dead_grid\<lparr>current_bitmap := B2, next_bitmap := B1, root_group := G2\<rparr>)"
    by (simp add: well_formed_def dead_grid_def init_def)
  show ?thesis
    unfolding run_iteration_eq [OF wf] generation_of_dead
    by (simp add: dead_grid_def init_def put_bitmap_def replicate_4)
qed

lemma run_loop_dead_even: "run_loop (2 * n) source_config dead_grid = Inr dead_grid"
  by (induction n) (simp_all add: run_iteration_dead_1 run_iteration_dead_2)

text \<open>
  Claim C4. Every iteration of the loop of \<open>run\<close> computes the next generation, swaps
  the two bitmap references (no copy: \<open>run_iteration_swaps_roles\<close>) and switches the
  displayed group. It does not count the population, push the history, increment
  \<open>generation\<close> or check stability, although \<open>AUTO_RESET_ON_STABLE\<close> is \<open>True\<close>: the call
  of \<open>handle_stable_state\<close> is commented out (\<open>run_iteration_tracking_untouched\<close>). The
  theorem evaluates the loop on the all-dead 2 by 2 grid, whose population is constantly
  0: one iteration only swaps the roles, and after ten iterations the state is the
  starting state, with \<open>generation = 0\<close>, \<open>stable_count = 0\<close>, an untouched history and
  nothing printed, where ten checked generations would have reseeded.
\<close>

theorem run_skips_stability_check:
  "AUTO_RESET_ON_STABLE source_config
   \<and> run_iteration source_config dead_grid
       = Inr (dead_grid\<lparr>current_bitmap := B2, next_bitmap := B1, root_group := G2\<rparr>)
   \<and> run_loop 10 source_config dead_grid = Inr dead_grid
   \<and> generation dead_grid = 0 \<and> stable_count dead_grid = 0
   \<and> population_history dead_grid = [0, 0, 0] \<and> console dead_grid = []"
  using run_loop_dead_even [of 5]
  by (simp add: run_iteration_dead_1 dead_grid_fields) (simp add: source_config_def)

subsection \<open>\<open>randomize\<close> at the fractions 0 and 1\<close>

lemma py_int_0_1: "py_int (0 * 32767) = 0" "py_int (1 * 32767) = 32767"
  by (simp_all add: py_int_def)

lemma random_cells_zero: "random_cells cfg 0 g = replicate (width g * height g) 0"
  by (simp add: random_cells_def map_replicate_const)

lemma random_cells_one:
  assumes "\<forall>i < width g * height g. random_bits g (random_pos g + i) mod 32768 \<noteq> 32767"
  shows "random_cells cfg 32767 g = replicate (width g * height g) (FADE_LEVELS cfg - 1)"
proof -
  have "int (random_bits g (random_pos g + i) mod 32768) < 32767"
    if "i < width g * height g" for i
  proof -
    have "random_bits g (random_pos g + i) mod 32768 < 32768" by simp
    moreover have "random_bits g (random_pos g + i) mod 32768 \<noteq> 32767" using assms that by simp
    ultimately show ?thesis by linarith
  qed
  then have "map (\<lambda>i. if int (random_bits g (random_pos g + i) mod 32768) < 32767
              then FADE_LEVELS cfg - 1 else 0) [0..<width g * height g]
             = map (\<lambda>i. FADE_LEVELS cfg - 1) [0..<width g * height g]"
    by (intro map_cong) simp_all
  then show ?thesis by (simp add: random_cells_def map_replicate_const)
qed

lemma randomize_zero_all_dead:
  assumes wf: "well_formed g"
  shows "\<exists>g'. randomize cfg 0 g = Inr g'
           \<and> bitmap_of (current_bitmap g) g' = replicate (width g * height g) 0
           \<and> fade_buffer g' = replicate (width g * height g) 0
           \<and> bitmap_of (next_bitmap g) g' = bitmap_of (next_bitmap g) g"
proof -
  have lc: "length (bitmap_of (current_bitmap g) g) = width g * height g"
    using wf by (rule length_bitmap_of)
  have lf: "length (fade_buffer g) = width g * height g"
    using wf by (simp add: well_formed_def)
  have ne: "next_bitmap g \<noteq> current_bitmap g" using wf by (auto simp: well_formed_def)
  show ?thesis
    unfolding randomize_eq [OF lc lf] py_int_0_1 random_cells_zero using ne by simp
qed

lemma randomize_one_all_alive_below:
  assumes wf: "well_formed g"
    and draws: "\<forall>i < width g * height g. random_bits g (random_pos g + i) mod 32768 \<noteq> 32767"
  shows "\<exists>g'. randomize cfg 1 g = Inr g'
           \<and> bitmap_of (current_bitmap g) g' = replicate (width g * height g) (FADE_LEVELS cfg - 1)
           \<and> fade_buffer g' = replicate (width g * height g) (FADE_LEVELS cfg - 1)
           \<and> bitmap_of (next_bitmap g) g' = bitmap_of (next_bitmap g) g"
proof -
  have lc: "length (bitmap_of (current_bitmap g) g) = width g * height g"
    using wf by (rule length_bitmap_of)
  have lf: "length (fade_buffer g) = width g * height g"
    using wf by (simp add: well_formed_def)
  have ne: "next_bitmap g \<noteq> current_bitmap g" using wf by (auto simp: well_formed_def)
  show ?thesis
    unfolding randomize_eq [OF lc lf] py_int_0_1 random_cells_one [OF draws] using ne by simp
qed

lemma randomize_fade_follows_current:
  assumes wf: "well_formed g"
  shows "\<exists>g'. randomize cfg fraction g = Inr g'
           \<and> fade_buffer g' = bitmap_of (current_bitmap g) g'
           \<and> bitmap_of (next_bitmap g) g' = bitmap_of (next_bitmap g) g"
proof -
  have lc: "length (bitmap_of (current_bitmap g) g) = width g * height g"
    using wf by (rule length_bitmap_of)
  have lf: "length (fade_buffer g) = width g * height g"
    using wf by (simp add: well_formed_def)
  have ne: "next_bitmap g \<noteq> current_bitmap g" using wf by (auto simp: well_formed_def)
  show ?thesis
    unfolding randomize_eq [OF lc lf] using ne by simp
qed

text \<open>
  Claim C5. \<open>randomize(0.0)\<close> leaves every cell of the current buffer and of the fade
  buffer 0 for every outcome of the draws, the fade buffer always equals the current
  buffer afterwards, and the next buffer is not written (\<open>randomize_zero_all_dead\<close>,
  \<open>randomize_fade_follows_current\<close>). \<open>randomize(1.0)\<close> makes a cell alive only when its
  draw is below the threshold \<open>int(1.0 * 32767) = 32767\<close>, and \<open>getrandbits(15)\<close> can
  return \<open>32767\<close> (\<open>randomize_one_all_alive_below\<close> is the case where it does not). The
  theorem evaluates \<open>randomize(1.0)\<close> on a fresh 2 by 2 grid whose third draw is \<open>32767\<close>:
  the third cell stays 0 in both buffers.
\<close>

theorem randomize_one_leaves_dead_cell:
  "randomize source_config 1 (init source_config 2 2 (\<lambda>i. if i = 2 then 32767 else 0))
     = Inr ((init source_config 2 2 (\<lambda>i. if i = 2 then 32767 else 0))
              \<lparr>b1 := [7, 7, 0, 7], fade_buffer := [7, 7, 0, 7], random_pos := 4\<rparr>)"
proof -
  let ?g = "init source_config 2 2 (\<lambda>i. if i = 2 then 32767 else 0)"
  have lc: "length (bitmap_of (current_bitmap ?g) ?g) = width ?g * height ?g"
    and lf: "length (fade_buffer ?g) = width ?g * height ?g"
    by (simp_all add: init_def bitmap_of_def)
  have cells: "random_cells source_config 32767 ?g = [7, 7, 0, 7]"
    by (simp add: random_cells_def init_def upt_4 source_config_def)
  show ?thesis
    unfolding randomize_eq [OF lc lf] py_int_0_1 cells
    by (simp add: init_def put_bitmap_def)
qed

subsection \<open>A history of one entry\<close>

text \<open>
  Claim C8. The reads of the grid stay in range on every well-formed grid
  (\<open>apply_life_rule_with_fade_eq\<close>: the loops return), and so do the reads of the
  history for \<open>HISTORY_SIZE \<ge> 2\<close> (\<open>check_stability_eq\<close>). With \<open>HISTORY_SIZE = 1\<close> the
  static check reads \<open>population_history[1]\<close> of a one-element list, which the second and
  third checks avoid by their guard \<open>HISTORY_SIZE >= 3\<close>: \<open>check_stability\<close> raises
  \<open>IndexError\<close> (\<open>check_stability_too_short\<close>). The theorem evaluates \<open>check_stability\<close>
  and \<open>handle_stable_state\<close> on the state \<open>__init__\<close> builds for \<open>HISTORY_SIZE = 1\<close>.
\<close>

theorem history_size_1_index_error:
  "check_stability (source_config\<lparr>HISTORY_SIZE := 1\<rparr>) 0
     (init (source_config\<lparr>HISTORY_SIZE := 1\<rparr>) 2 2 (\<lambda>i. 0)) = Inl IndexError
   \<and> handle_stable_state (source_config\<lparr>HISTORY_SIZE := 1\<rparr>)
     (init (source_config\<lparr>HISTORY_SIZE := 1\<rparr>) 2 2 (\<lambda>i. 0)) = Inl IndexError
   \<and> population_history (init (source_config\<lparr>HISTORY_SIZE := 1\<rparr>) 2 2 (\<lambda>i. 0)) = [0]"
proof -
  let ?cfg = "source_config\<lparr>HISTORY_SIZE := 1\<rparr>"
  let ?g = "init ?cfg 2 2 (\<lambda>i. 0)"
  have h: "population_history ?g = [0]"
    by (simp add: init_def source_config_def)
  have len: "length (population_history ?g) = HISTORY_SIZE ?cfg" "HISTORY_SIZE ?cfg = 1"
    by (simp_all add: init_def source_config_def)
  have chk: "check_stability ?cfg pop ?g = Inl IndexError" for pop
    using len by (rule check_stability_too_short)
  have lc: "length (bitmap_of (current_bitmap ?g) ?g) = width ?g * height ?g"
    by (simp add: init_def bitmap_of_def)
  have "handle_stable_state ?cfg ?g = Inl IndexError"
    unfolding handle_stable_state_def count_population_eq [OF lc] and_then_Inr chk
    by (simp add: source_config_def)
  with chk h show ?thesis by simp
qed

end
